theory Spec2Isabelle
  imports Complex_Main
begin

section \<open>The simulation drivers of willsmith (simulator.py)\<close>

text \<open>
  The module drives agents through a game (\<open>run_games\<close>) or a Markov decision process
  (\<open>run_mdp\<close>). Game, MDP and agents are duck-typed collaborators: the driver only
  calls their methods and reads their attributes. They are modelled as records of
  methods acting on one shared world \<open>'w\<close> (everything reachable from the objects the
  driver holds), so that a method may change anything, as in Python. A method either
  returns a value or raises; the driver catches nothing. Reading an attribute and
  formatting an object for a log record change nothing, and \<open>input\<close> returns.

  Every run yields the list of events it produced, in order: the collaborator calls
  with their arguments and results, the log records and the final console prompt.

  \<^item> \<open>run_games\<close>, \<open>run_mdp\<close>: the functions of the same names;
  \<^item> \<open>run_game\<close>, \<open>advance_by_action\<close>, \<open>run_trial\<close>: \<open>_run_game\<close>,
    \<open>_advance_by_action\<close>, \<open>_run_trial\<close>;
  \<^item> \<open>game_turn\<close>, \<open>trial_step\<close>: the bodies of the two \<open>while\<close> loops.
\<close>

subsection \<open>Errors, events and programs\<close>

datatype error =
    RuntimeError string    \<comment> \<open>raised by \<open>run_games\<close> itself\<close>
  | IndexError             \<comment> \<open>\<open>agents[game.current_agent_id]\<close> out of range\<close>
  | Collaborator string    \<comment> \<open>anything raised inside a game, MDP or agent method\<close>

datatype level = INFO | DEBUG

datatype ('c, 'm) event =
    Call 'c              \<comment> \<open>a collaborator method was called and returned\<close>
  | Raised error         \<comment> \<open>a collaborator method was called and raised\<close>
  | Log level 'm         \<comment> \<open>\<open>getLogger(__name__).info\<close> / \<open>.debug\<close>\<close>
  | Input string         \<comment> \<open>\<open>input(prompt)\<close>\<close>

text \<open>A method of a collaborator: from a world to a result or an error, and the new world.\<close>

type_synonym ('x, 'w) call = "'w \<Rightarrow> (error + 'x) \<times> 'w"

text \<open>
  A driver program: from a world to its outcome, the events it produced and the new
  world; \<open>None\<close> when a \<open>while\<close> loop has not finished within its fuel.
\<close>

type_synonym ('x, 'e, 'w) prog = "'w \<Rightarrow> ((error + 'x) \<times> 'e list \<times> 'w) option"

definition ret :: "'x \<Rightarrow> ('x, 'e, 'w) prog" where
  "ret x w = Some (Inr x, [], w)"

definition raise :: "error \<Rightarrow> ('x, 'e, 'w) prog" where
  "raise e w = Some (Inl e, [], w)"

definition read :: "('w \<Rightarrow> 'x) \<Rightarrow> ('x, 'e, 'w) prog" where
  "read f w = Some (Inr (f w), [], w)"

definition log_line :: "level \<Rightarrow> 'm \<Rightarrow> (unit, ('c, 'm) event, 'w) prog" where
  "log_line lv msg w = Some (Inr (), [Log lv msg], w)"

definition input :: "string \<Rightarrow> (unit, ('c, 'm) event, 'w) prog" where
  "input prompt w = Some (Inr (), [Input prompt], w)"

definition invoke :: "('x \<Rightarrow> 'c) \<Rightarrow> ('x, 'w) call \<Rightarrow> ('x, ('c, 'm) event, 'w) prog" where
  "invoke ev m w =
     (case m w of
        (Inl e, w') \<Rightarrow> Some (Inl e, [Raised e], w')
      | (Inr x, w') \<Rightarrow> Some (Inr x, [Call (ev x)], w'))"

text \<open>Sequencing: an error or a loop out of fuel ends the program; events accumulate.\<close>

definition bind :: "('x, 'e, 'w) prog \<Rightarrow> ('x \<Rightarrow> ('y, 'e, 'w) prog) \<Rightarrow> ('y, 'e, 'w) prog" where
  "bind m f w =
     (case m w of
        None \<Rightarrow> None
      | Some (Inl e, tr, w1) \<Rightarrow> Some (Inl e, tr, w1)
      | Some (Inr x, tr, w1) \<Rightarrow>
          (case f x w1 of
             None \<Rightarrow> None
           | Some (r, tr2, w2) \<Rightarrow> Some (r, tr @ tr2, w2)))"

text \<open>\<open>for x in xs: body\<close>\<close>

fun for_each :: "'a list \<Rightarrow> ('a \<Rightarrow> (unit, 'e, 'w) prog) \<Rightarrow> (unit, 'e, 'w) prog" where
  "for_each [] body = ret ()"
| "for_each (x # xs) body = bind (body x) (\<lambda>_. for_each xs body)"

text \<open>
  \<open>while not cond(): body\<close>, with at most \<open>fuel\<close> evaluations of the condition.
\<close>

fun while_not :: "nat \<Rightarrow> (bool, 'e, 'w) prog \<Rightarrow> (unit, 'e, 'w) prog \<Rightarrow> (unit, 'e, 'w) prog" where
  "while_not 0 cond body = (\<lambda>w. None)"
| "while_not (Suc fuel) cond body =
     bind cond (\<lambda>stop. if stop then ret () else bind body (\<lambda>_. while_not fuel cond body))"

text \<open>
  \<open>xs[i]\<close> on a Python list, as the position it reads: \<open>i\<close> itself from 0 up to
  \<open>len(xs) - 1\<close>, \<open>len(xs) + i\<close> for \<open>i\<close> from \<open>-len(xs)\<close> up to \<open>-1\<close>, and an
  IndexError for any other \<open>i\<close>.
\<close>

definition py_index :: "'a list \<Rightarrow> int \<Rightarrow> error + nat" where
  "py_index xs i =
     (if 0 \<le> i \<and> i < int (length xs) then Inr (nat i)
      else if i < 0 \<and> - int (length xs) \<le> i then Inr (nat (int (length xs) + i))
      else Inl IndexError)"

definition subscript :: "'a list \<Rightarrow> int \<Rightarrow> (nat, 'e, 'w) prog" where
  "subscript xs i = (case py_index xs i of Inl e \<Rightarrow> raise e | Inr p \<Rightarrow> ret p)"

subsection \<open>The game interface\<close>

record ('w, 's, 'act) game =
  NUM_PLAYERS :: int
  current_agent_id :: "'w \<Rightarrow> int"
  game_reset :: "(unit, 'w) call"
  is_terminal :: "(bool, 'w) call"
  game_copy :: "('s, 'w) call"
  game_take_action :: "'act \<Rightarrow> (unit, 'w) call"
  get_winning_id :: "(int, 'w) call"
  game_str :: "'w \<Rightarrow> string"

record ('w, 's, 'act, 't) agent =
  agent_id :: int
  agent_reset :: "(unit, 'w) call"
  search :: "'s \<Rightarrow> 't \<Rightarrow> ('act, 'w) call"
  agent_take_action :: "'act \<Rightarrow> bool \<Rightarrow> (unit, 'w) call"
  agent_str :: "'w \<Rightarrow> string"

text \<open>
  The calls the game driver makes. Agents are named by their position in the list
  \<open>agents\<close>, which is what the driver holds; \<open>agent_id\<close> is an attribute of the agent.
\<close>

datatype ('s, 'act, 't) game_call =
    GameReset
  | AgentReset nat
  | GameIsTerminal bool
  | GameCopy 's
  | AgentSearch nat 's 't 'act
  | GameTakeAction 'act
  | AgentTakeAction nat 'act bool
  | GameGetWinningId int

datatype 'act game_msg =
    MsgGame int int            \<comment> \<open>"Game {}/{}"\<close>
  | MsgGamesComplete           \<comment> \<open>"Games complete"\<close>
  | MsgAgentStart int string   \<comment> \<open>"Agent {} start {}"\<close>
  | MsgAgent int string        \<comment> \<open>"Agent {} {}"\<close>
  | MsgAction int 'act         \<comment> \<open>"Agent {} action {}"\<close>
  | MsgWinner int              \<comment> \<open>"Winning agent is {}"\<close>
  | MsgFinalState string       \<comment> \<open>"Final state\n{}"\<close>

type_synonym ('s, 'act, 't) game_event = "(('s, 'act, 't) game_call, 'act game_msg) event"

subsection \<open>The game driver\<close>

text \<open>
  The loops over \<open>agents\<close> run over the list with its positions (\<open>enumerate\<close>): the
  position is used for nothing but to name the agent in the event of the call.
  \<open>game.current_agent_id\<close> is read twice, for the log record and for
  \<open>agent_id_for_action\<close>, both before the action is applied.
\<close>

definition advance_by_action ::
  "('w, 's, 'act) game \<Rightarrow> ('w, 's, 'act, 't) agent list \<Rightarrow> 'act
     \<Rightarrow> (unit, ('s, 'act, 't) game_event, 'w) prog" where
  "advance_by_action game agents action =
     bind (read (current_agent_id game)) (\<lambda>cur.
     bind (log_line DEBUG (MsgAction cur action)) (\<lambda>_.
     bind (read (current_agent_id game)) (\<lambda>agent_id_for_action.
     bind (invoke (\<lambda>_. GameTakeAction action) (game_take_action game action)) (\<lambda>_.
     for_each (enumerate 0 agents) (\<lambda>(i, agent).
       invoke (\<lambda>_. AgentTakeAction i action (agent_id agent = agent_id_for_action))
         (agent_take_action agent action (agent_id agent = agent_id_for_action)))))))"

text \<open>One pass through the body of the \<open>while\<close> loop of \<open>_run_game\<close>.\<close>

definition game_turn ::
  "('w, 's, 'act) game \<Rightarrow> ('w, 's, 'act, 't) agent list \<Rightarrow> 't
     \<Rightarrow> (unit, ('s, 'act, 't) game_event, 'w) prog" where
  "game_turn game agents time_allowed =
     bind (read (current_agent_id game)) (\<lambda>cur.
     bind (subscript agents cur) (\<lambda>p.
     bind (invoke GameCopy (game_copy game)) (\<lambda>snapshot.
     bind (invoke (AgentSearch p snapshot time_allowed)
             (search (agents ! p) snapshot time_allowed)) (\<lambda>action.
     bind (\<lambda>w. log_line DEBUG (MsgAgent (agent_id (agents ! p)) (agent_str (agents ! p) w)) w) (\<lambda>_.
     advance_by_action game agents action)))))"

definition run_game ::
  "nat \<Rightarrow> ('w, 's, 'act) game \<Rightarrow> ('w, 's, 'act, 't) agent list \<Rightarrow> 't
     \<Rightarrow> (unit, ('s, 'act, 't) game_event, 'w) prog" where
  "run_game fuel game agents time_allowed =
     bind (invoke (\<lambda>_. GameReset) (game_reset game)) (\<lambda>_.
     bind (for_each (enumerate 0 agents) (\<lambda>(i, agent).
             bind (invoke (\<lambda>_. AgentReset i) (agent_reset agent)) (\<lambda>_.
             (\<lambda>w. log_line DEBUG (MsgAgentStart (agent_id agent) (agent_str agent w)) w)))) (\<lambda>_.
     bind (while_not fuel (invoke GameIsTerminal (is_terminal game))
             (game_turn game agents time_allowed)) (\<lambda>_.
     bind (invoke GameGetWinningId (get_winning_id game)) (\<lambda>winner.
     bind (log_line INFO (MsgWinner winner)) (\<lambda>_.
     (\<lambda>w. log_line DEBUG (MsgFinalState (game_str game w)) w))))))"

definition run_games ::
  "nat \<Rightarrow> ('w, 's, 'act) game \<Rightarrow> ('w, 's, 'act, 't) agent list \<Rightarrow> 't \<Rightarrow> int
     \<Rightarrow> (unit, ('s, 'act, 't) game_event, 'w) prog" where
  "run_games fuel game agents time_allowed num_games =
     (if int (length agents) \<noteq> NUM_PLAYERS game
      then raise (RuntimeError ''Incorrect number of agents for game type.'')
      else
        bind (for_each [0..<nat num_games] (\<lambda>i.
                bind (log_line INFO (MsgGame (int i + 1) num_games)) (\<lambda>_.
                run_game fuel game agents time_allowed))) (\<lambda>_.
        bind (log_line INFO MsgGamesComplete) (\<lambda>_.
        input (CHR 0x0A # ''Press enter key to end.''))))"

subsection \<open>The MDP interface\<close>

record ('w, 's, 'act, 'r) mdp =
  mdp_reset :: "(unit, 'w) call"
  mdp_is_terminal :: "(bool, 'w) call"
  mdp_copy :: "('s, 'w) call"
  step :: "'act \<Rightarrow> ('r \<times> bool, 'w) call"
  total_reward :: "'w \<Rightarrow> 'r"
  timesteps :: "'w \<Rightarrow> int"

text \<open>
  The learning agent. \<open>update(prev_state, mdp, reward, action, terminal)\<close> is handed
  the live MDP itself as its second argument: in the model that is the world the
  method acts on.
\<close>

record ('w, 's, 'act, 'r, 'wt) learner =
  get_next_action :: "'s \<Rightarrow> ('act, 'w) call"
  update :: "'s \<Rightarrow> 'r \<Rightarrow> 'act \<Rightarrow> bool \<Rightarrow> (unit, 'w) call"
  weights :: "'w \<Rightarrow> 'wt"

datatype ('s, 'act, 'r) mdp_call =
    MdpReset
  | MdpIsTerminal bool
  | MdpCopy 's
  | GetNextAction 's 'act
  | Step 'act 'r bool
  | Update 's 'r 'act bool

datatype ('r, 'wt) mdp_msg =
    MsgTrial int int          \<comment> \<open>"Trial {}/{}"\<close>
  | MsgTrialResult 'r int     \<comment> \<open>"reward:{}; timesteps:{}"\<close>
  | MsgFinalWeights 'wt       \<comment> \<open>"Final agent weights: {}"\<close>
  | MsgTrialsComplete         \<comment> \<open>"Trials complete."\<close>

type_synonym ('s, 'act, 'r, 'wt) mdp_event = "(('s, 'act, 'r) mdp_call, ('r, 'wt) mdp_msg) event"

subsection \<open>The MDP driver\<close>

text \<open>
  One pass through the body of the \<open>while\<close> loop of \<open>_run_trial\<close>. The local
  \<open>prev_state\<close> is assigned in every pass before it is read, so its initial \<open>None\<close>
  is never seen.
\<close>

definition trial_step ::
  "('w, 's, 'act, 'r) mdp \<Rightarrow> ('w, 's, 'act, 'r, 'wt) learner
     \<Rightarrow> (unit, ('s, 'act, 'r, 'wt) mdp_event, 'w) prog" where
  "trial_step mdp agent =
     bind (invoke MdpCopy (mdp_copy mdp)) (\<lambda>snapshot.
     bind (invoke (GetNextAction snapshot) (get_next_action agent snapshot)) (\<lambda>action.
     bind (invoke MdpCopy (mdp_copy mdp)) (\<lambda>prev_state.
     bind (invoke (\<lambda>(reward, terminal). Step action reward terminal) (step mdp action))
       (\<lambda>(reward, terminal).
     invoke (\<lambda>_. Update prev_state reward action terminal)
       (update agent prev_state reward action terminal)))))"

definition run_trial ::
  "nat \<Rightarrow> ('w, 's, 'act, 'r) mdp \<Rightarrow> ('w, 's, 'act, 'r, 'wt) learner
     \<Rightarrow> (int, ('s, 'act, 'r, 'wt) mdp_event, 'w) prog" where
  "run_trial fuel mdp agent =
     bind (invoke (\<lambda>_. MdpReset) (mdp_reset mdp)) (\<lambda>_.
     bind (while_not fuel (invoke MdpIsTerminal (mdp_is_terminal mdp))
             (trial_step mdp agent)) (\<lambda>_.
     read (timesteps mdp)))"

definition run_mdp ::
  "nat \<Rightarrow> ('w, 's, 'act, 'r) mdp \<Rightarrow> ('w, 's, 'act, 'r, 'wt) learner \<Rightarrow> int
     \<Rightarrow> (unit, ('s, 'act, 'r, 'wt) mdp_event, 'w) prog" where
  "run_mdp fuel mdp agent num_trials =
     bind (for_each [0..<nat num_trials] (\<lambda>i.
             bind (log_line INFO (MsgTrial (int i + 1) num_trials)) (\<lambda>_.
             bind (run_trial fuel mdp agent) (\<lambda>num_steps.
             (\<lambda>w. log_line DEBUG (MsgTrialResult (total_reward mdp w) (timesteps mdp w)) w))))) (\<lambda>_.
     bind (\<lambda>w. log_line DEBUG (MsgFinalWeights (weights agent w)) w) (\<lambda>_.
     bind (log_line INFO MsgTrialsComplete) (\<lambda>_.
     input (CHR 0x0A # ''Press enter key to end.''))))"

subsection \<open>Reading a run's events\<close>

fun applied :: "('s, 'act, 't) game_event \<Rightarrow> 'act option" where
  "applied (Call (GameTakeAction a)) = Some a"
| "applied _ = None"

fun notified :: "nat \<Rightarrow> ('s, 'act, 't) game_event \<Rightarrow> ('act \<times> bool) option" where
  "notified i (Call (AgentTakeAction j a own)) = (if j = i then Some (a, own) else None)"
| "notified i _ = None"

fun searched :: "('s, 'act, 't) game_event \<Rightarrow> (nat \<times> 'act) option" where
  "searched (Call (AgentSearch p s t a)) = Some (p, a)"
| "searched _ = None"

fun acting :: "('s, 'act, 't) game_event \<Rightarrow> int option" where
  "acting (Log DEBUG (MsgAction c a)) = Some c"
| "acting _ = None"

fun terminal_report :: "('s, 'act, 't) game_event \<Rightarrow> bool option" where
  "terminal_report (Call (GameIsTerminal b)) = Some b"
| "terminal_report _ = None"

fun winner_read :: "('s, 'act, 't) game_event \<Rightarrow> int option" where
  "winner_read (Call (GameGetWinningId i)) = Some i"
| "winner_read _ = None"

fun winner_logged :: "('s, 'act, 't) game_event \<Rightarrow> int option" where
  "winner_logged (Log INFO (MsgWinner i)) = Some i"
| "winner_logged _ = None"

text \<open>The actions applied to the game, in order: the state transitions.\<close>

definition transitions :: "('s, 'act, 't) game_event list \<Rightarrow> 'act list" where
  "transitions tr = List.map_filter applied tr"

text \<open>The \<open>take_action(action, own)\<close> notifications delivered to the agent at position \<open>i\<close>.\<close>

definition notifications :: "nat \<Rightarrow> ('s, 'act, 't) game_event list \<Rightarrow> ('act \<times> bool) list" where
  "notifications i tr = List.map_filter (notified i) tr"

text \<open>The searches made: the position of the agent asked and the action it returned.\<close>

definition searches :: "('s, 'act, 't) game_event list \<Rightarrow> (nat \<times> 'act) list" where
  "searches tr = List.map_filter searched tr"

text \<open>The value of \<open>game.current_agent_id\<close> logged for each action before it is applied.\<close>

definition acting_ids :: "('s, 'act, 't) game_event list \<Rightarrow> int list" where
  "acting_ids tr = List.map_filter acting tr"

definition terminal_reports :: "('s, 'act, 't) game_event list \<Rightarrow> bool list" where
  "terminal_reports tr = List.map_filter terminal_report tr"

definition winners_read :: "('s, 'act, 't) game_event list \<Rightarrow> int list" where
  "winners_read tr = List.map_filter winner_read tr"

definition winners_logged :: "('s, 'act, 't) game_event list \<Rightarrow> int list" where
  "winners_logged tr = List.map_filter winner_logged tr"

fun stepped :: "('s, 'act, 'r, 'wt) mdp_event \<Rightarrow> ('act \<times> 'r \<times> bool) option" where
  "stepped (Call (Step a r t)) = Some (a, r, t)"
| "stepped _ = None"

fun updated :: "('s, 'act, 'r, 'wt) mdp_event \<Rightarrow> ('s \<times> 'r \<times> 'act \<times> bool) option" where
  "updated (Call (Update s r a t)) = Some (s, r, a, t)"
| "updated _ = None"

fun copied :: "('s, 'act, 'r, 'wt) mdp_event \<Rightarrow> 's option" where
  "copied (Call (MdpCopy s)) = Some s"
| "copied _ = None"

fun asked :: "('s, 'act, 'r, 'wt) mdp_event \<Rightarrow> ('s \<times> 'act) option" where
  "asked (Call (GetNextAction s a)) = Some (s, a)"
| "asked _ = None"

fun mdp_terminal_report :: "('s, 'act, 'r, 'wt) mdp_event \<Rightarrow> bool option" where
  "mdp_terminal_report (Call (MdpIsTerminal b)) = Some b"
| "mdp_terminal_report _ = None"

fun result_logged :: "('s, 'act, 'r, 'wt) mdp_event \<Rightarrow> ('r \<times> int) option" where
  "result_logged (Log DEBUG (MsgTrialResult r n)) = Some (r, n)"
| "result_logged _ = None"

text \<open>The \<open>step(action)\<close> calls with the reward and terminal flag each returned.\<close>

definition steps :: "('s, 'act, 'r, 'wt) mdp_event list \<Rightarrow> ('act \<times> 'r \<times> bool) list" where
  "steps tr = List.map_filter stepped tr"

text \<open>The \<open>update\<close> calls with the snapshot, reward, action and flag each was given.\<close>

definition updates :: "('s, 'act, 'r, 'wt) mdp_event list \<Rightarrow> ('s \<times> 'r \<times> 'act \<times> bool) list" where
  "updates tr = List.map_filter updated tr"

definition copies :: "('s, 'act, 'r, 'wt) mdp_event list \<Rightarrow> 's list" where
  "copies tr = List.map_filter copied tr"

definition queries :: "('s, 'act, 'r, 'wt) mdp_event list \<Rightarrow> ('s \<times> 'act) list" where
  "queries tr = List.map_filter asked tr"

definition mdp_terminal_reports :: "('s, 'act, 'r, 'wt) mdp_event list \<Rightarrow> bool list" where
  "mdp_terminal_reports tr = List.map_filter mdp_terminal_report tr"

definition results_logged :: "('s, 'act, 'r, 'wt) mdp_event list \<Rightarrow> ('r \<times> int) list" where
  "results_logged tr = List.map_filter result_logged tr"

text \<open>The notification the agent at position \<open>i\<close> gets for action \<open>a\<close> when the acting id is \<open>c\<close>.\<close>

definition notice ::
  "'act \<Rightarrow> int \<Rightarrow> nat \<times> ('w, 's, 'act, 't) agent \<Rightarrow> ('s, 'act, 't) game_event" where
  "notice a c = (\<lambda>(i, ag). Call (AgentTakeAction i a (agent_id ag = c)))"

text \<open>A stretch of events with no search, transition, notification, terminal report or winner.\<close>

definition quiet :: "('s, 'act, 't) game_event list \<Rightarrow> bool" where
  "quiet tr \<longleftrightarrow> transitions tr = [] \<and> (\<forall>i. notifications i tr = []) \<and> searches tr = [] \<and>
     acting_ids tr = [] \<and> terminal_reports tr = [] \<and> winners_read tr = [] \<and>
     winners_logged tr = []"

text \<open>
  The events of one pass of the trial loop that goes on: the terminal test, the snapshot
  \<open>s1\<close> given to \<open>get_next_action\<close>, the action \<open>a\<close> it returned, the snapshot \<open>s2\<close>
  kept as \<open>prev_state\<close>, the step with its reward \<open>r\<close> and flag \<open>t\<close>, the update.
\<close>

fun iteration_events :: "'s \<times> 'act \<times> 's \<times> 'r \<times> bool \<Rightarrow> ('s, 'act, 'r, 'wt) mdp_event list" where
  "iteration_events (s1, a, s2, r, t) =
     [Call (MdpIsTerminal False), Call (MdpCopy s1), Call (GetNextAction s1 a),
      Call (MdpCopy s2), Call (Step a r t), Call (Update s2 r a t)]"

text \<open>
  Every \<open>update\<close> in a list of events comes right after a \<open>step\<close> that comes right after a
  \<open>copy\<close>, and is given that copy's result, that step's action and what that step
  returned. The scan carries the two events before the one it looks at.
\<close>

definition update_in_order ::
  "('s, 'act, 'r, 'wt) mdp_event option \<Rightarrow> ('s, 'act, 'r, 'wt) mdp_event option
     \<Rightarrow> ('s, 'act, 'r, 'wt) mdp_event \<Rightarrow> bool" where
  "update_in_order before2 before1 e =
     (case updated e of
        None \<Rightarrow> True
      | Some (s, r, a, t) \<Rightarrow>
          before2 = Some (Call (MdpCopy s)) \<and> before1 = Some (Call (Step a r t)))"

fun updates_in_order ::
  "('s, 'act, 'r, 'wt) mdp_event option \<Rightarrow> ('s, 'act, 'r, 'wt) mdp_event option
     \<Rightarrow> ('s, 'act, 'r, 'wt) mdp_event list \<Rightarrow> bool" where
  "updates_in_order before2 before1 [] = True"
| "updates_in_order before2 before1 (e # tr) =
     (update_in_order before2 before1 e \<and> updates_in_order before1 (Some e) tr)"

definition prev_state_precedes_step :: "('s, 'act, 'r, 'wt) mdp_event list \<Rightarrow> bool" where
  "prev_state_precedes_step tr = updates_in_order None None tr"

subsection \<open>The bookkeeping of an MDP\<close>

text \<open>
  Modelled from the spec: the MDP classes are not part of the driver's file; the spec
  describes \<open>timesteps\<close> as the elapsed timestep count the MDP exposes, cleared by
  \<open>reset\<close> with the rest of the episode's state. As a contract on the collaborators:
  \<open>reset\<close> leaves the count at zero, every \<open>step\<close> that returns adds one, and no other
  method the driver calls (of the MDP or of the agent) changes it.
\<close>

definition counts_timesteps ::
  "('w, 's, 'act, 'r) mdp \<Rightarrow> ('w, 's, 'act, 'r, 'wt) learner \<Rightarrow> bool" where
  "counts_timesteps mdp agent \<longleftrightarrow>
     (\<forall>w w'. mdp_reset mdp w = (Inr (), w') \<longrightarrow> timesteps mdp w' = 0) \<and>
     (\<forall>a w r t w'. step mdp a w = (Inr (r, t), w') \<longrightarrow> timesteps mdp w' = timesteps mdp w + 1) \<and>
     (\<forall>w b w'. mdp_is_terminal mdp w = (Inr b, w') \<longrightarrow> timesteps mdp w' = timesteps mdp w) \<and>
     (\<forall>w s w'. mdp_copy mdp w = (Inr s, w') \<longrightarrow> timesteps mdp w' = timesteps mdp w) \<and>
     (\<forall>s w a w'. get_next_action agent s w = (Inr a, w') \<longrightarrow> timesteps mdp w' = timesteps mdp w) \<and>
     (\<forall>s r a t w w'. update agent s r a t w = (Inr (), w') \<longrightarrow> timesteps mdp w' = timesteps mdp w)"

subsection \<open>Environments as objects in a store\<close>

text \<open>
  Modelled from the spec: the Game and MDP classes are not part of the driver's file; the
  spec describes \<open>copy()\<close> as a deep copy, an independent snapshot frozen at call time.
  To speak of objects that may or may not be shared, the world is a store of environment
  states, an address being a position in the list. The live environment is the object at
  address \<open>live\<close>; \<open>reset\<close>, \<open>take_action\<close> and \<open>step\<close> overwrite that object in place;
  \<open>copy\<close> allocates a new object holding the live state and returns its address.
  The rules of the concrete game or MDP are a parameter.
\<close>

record ('v, 'act) game_rules =
  initial_state :: 'v
  over :: "'v \<Rightarrow> bool"
  to_move :: "'v \<Rightarrow> int"
  move :: "'act \<Rightarrow> 'v \<Rightarrow> error + 'v"
  winning_id :: "'v \<Rightarrow> int"
  players :: int

text \<open>
  Modelled from the spec: a game whose live state is the object at address \<open>live\<close>;
  \<open>copy()\<close> is the deep copy of the spec, a new object at the end of the store.
\<close>

definition stored_game :: "nat \<Rightarrow> ('v, 'act) game_rules \<Rightarrow> ('v list, nat, 'act) game" where
  "stored_game live rules =
     \<lparr>NUM_PLAYERS = players rules,
      current_agent_id = (\<lambda>h. to_move rules (h ! live)),
      game_reset = (\<lambda>h. (Inr (), h[live := initial_state rules])),
      is_terminal = (\<lambda>h. (Inr (over rules (h ! live)), h)),
      game_copy = (\<lambda>h. (Inr (length h), h @ [h ! live])),
      game_take_action = (\<lambda>a h.
        case move rules a (h ! live) of
          Inl e \<Rightarrow> (Inl e, h)
        | Inr v \<Rightarrow> (Inr (), h[live := v])),
      get_winning_id = (\<lambda>h. (Inr (winning_id rules (h ! live)), h)),
      game_str = (\<lambda>h. [])\<rparr>"

record ('v, 'act, 'r) mdp_rules =
  start :: 'v
  finished :: "'v \<Rightarrow> bool"
  advance :: "'act \<Rightarrow> 'v \<Rightarrow> error + ('r \<times> bool) \<times> 'v"
  gain :: "'v \<Rightarrow> 'r"
  clock :: "'v \<Rightarrow> int"

text \<open>
  Modelled from the spec: an MDP whose live state is the object at address \<open>live\<close>;
  \<open>copy()\<close> is the deep copy of the spec, a new object at the end of the store.
\<close>

definition stored_mdp :: "nat \<Rightarrow> ('v, 'act, 'r) mdp_rules \<Rightarrow> ('v list, nat, 'act, 'r) mdp" where
  "stored_mdp live rules =
     \<lparr>mdp_reset = (\<lambda>h. (Inr (), h[live := start rules])),
      mdp_is_terminal = (\<lambda>h. (Inr (finished rules (h ! live)), h)),
      mdp_copy = (\<lambda>h. (Inr (length h), h @ [h ! live])),
      step = (\<lambda>a h.
        case advance rules a (h ! live) of
          Inl e \<Rightarrow> (Inl e, h)
        | Inr (rt, v) \<Rightarrow> (Inr rt, h[live := v])),
      total_reward = (\<lambda>h. gain rules (h ! live)),
      timesteps = (\<lambda>h. clock rules (h ! live))\<rparr>"

text \<open>
  The live environment mutated by a sequence of actions, each applied as the driver
  applies it (\<open>game.take_action(action)\<close>, \<open>mdp.step(action)\<close>); \<open>None\<close> when one raises.
\<close>

fun take_actions :: "('w, 's, 'act) game \<Rightarrow> 'act list \<Rightarrow> 'w \<Rightarrow> 'w option" where
  "take_actions game [] w = Some w"
| "take_actions game (a # as) w =
     (case game_take_action game a w of
        (Inl e, w') \<Rightarrow> None
      | (Inr u, w') \<Rightarrow> take_actions game as w')"

fun take_steps :: "('w, 's, 'act, 'r) mdp \<Rightarrow> 'act list \<Rightarrow> 'w \<Rightarrow> 'w option" where
  "take_steps mdp [] w = Some w"
| "take_steps mdp (a # as) w =
     (case step mdp a w of
        (Inl e, w') \<Rightarrow> None
      | (Inr rt, w') \<Rightarrow> take_steps mdp as w')"

subsection \<open>Deterministic stubs\<close>

text \<open>
  A game for two players whose state is the number of moves applied: it is over once
  \<open>limit\<close> moves have been applied, \<open>turn\<close> gives the acting id in each state, and the
  winner is fixed. Its snapshot is the state itself. The stub agents answer
  \<open>pick snapshot\<close> and keep no state.
\<close>

definition stub_game :: "(nat \<Rightarrow> int) \<Rightarrow> nat \<Rightarrow> int \<Rightarrow> (nat, nat, 'act) game" where
  "stub_game turn limit win =
     \<lparr>NUM_PLAYERS = 2,
      current_agent_id = turn,
      game_reset = (\<lambda>w. (Inr (), 0)),
      is_terminal = (\<lambda>w. (Inr (limit \<le> w), w)),
      game_copy = (\<lambda>w. (Inr w, w)),
      game_take_action = (\<lambda>a w. (Inr (), Suc w)),
      get_winning_id = (\<lambda>w. (Inr win, w)),
      game_str = (\<lambda>w. ''game'')\<rparr>"

definition stub_agent :: "int \<Rightarrow> (nat \<Rightarrow> 'act) \<Rightarrow> (nat, nat, 'act, 't) agent" where
  "stub_agent i pick =
     \<lparr>agent_id = i,
      agent_reset = (\<lambda>w. (Inr (), w)),
      search = (\<lambda>s t w. (Inr (pick s), w)),
      agent_take_action = (\<lambda>a own w. (Inr (), w)),
      agent_str = (\<lambda>w. ''agent'')\<rparr>"

definition alternate :: "nat \<Rightarrow> int" where
  "alternate w = int (w mod 2)"

text \<open>A game whose acting id is always \<open>-1\<close>, which a Python list reads from its end.\<close>

definition last_player :: "nat \<Rightarrow> int" where
  "last_player w = - 1"

text \<open>The state of the stub MDP: where it is on its trajectory, and its two counters.\<close>

record stub_state =
  place :: nat
  elapsed :: int
  reward_sum :: real

text \<open>
  Modelled from the spec: an MDP with a fixed trajectory of \<open>horizon\<close> steps and the same
  reward \<open>rew\<close> at every step, which keeps the counters the spec lists for an MDP
  (\<open>timesteps\<close>, \<open>total_reward\<close>) the way the spec describes them: cleared by \<open>reset\<close>,
  the elapsed steps and the cumulative reward afterwards. Its snapshot is its state.
\<close>

definition stub_mdp :: "nat \<Rightarrow> real \<Rightarrow> (stub_state, stub_state, 'act, real) mdp" where
  "stub_mdp horizon rew =
     \<lparr>mdp_reset = (\<lambda>w. (Inr (), \<lparr>place = 0, elapsed = 0, reward_sum = 0\<rparr>)),
      mdp_is_terminal = (\<lambda>w. (Inr (horizon \<le> place w), w)),
      mdp_copy = (\<lambda>w. (Inr w, w)),
      step = (\<lambda>a w.
        (Inr (rew, horizon \<le> Suc (place w)),
         \<lparr>place = Suc (place w), elapsed = elapsed w + 1, reward_sum = reward_sum w + rew\<rparr>)),
      total_reward = reward_sum,
      timesteps = elapsed\<rparr>"

definition stub_learner :: "(stub_state \<Rightarrow> 'act) \<Rightarrow> 'wt \<Rightarrow> (stub_state, stub_state, 'act, real, 'wt) learner" where
  "stub_learner pick wts =
     \<lparr>get_next_action = (\<lambda>s w. (Inr (pick s), w)),
      update = (\<lambda>s r a t w. (Inr (), w)),
      weights = (\<lambda>w. wts)\<rparr>"

text \<open>
  Rules for the store model, for concrete runs: a game and an MDP whose state is the
  number of moves made, over after \<open>limit\<close> of them, and a learner that answers with
  the number it reads in the snapshot it is handed.
\<close>

definition counting_rules :: "nat \<Rightarrow> (nat, 'act) game_rules" where
  "counting_rules limit =
     \<lparr>initial_state = 0,
      over = (\<lambda>v. limit \<le> v),
      to_move = (\<lambda>v. int (v mod 2)),
      move = (\<lambda>a v. Inr (Suc v)),
      winning_id = (\<lambda>v. 0),
      players = 2\<rparr>"

definition counting_mdp_rules :: "nat \<Rightarrow> (nat, 'act, real) mdp_rules" where
  "counting_mdp_rules limit =
     \<lparr>start = 0,
      finished = (\<lambda>v. limit \<le> v),
      advance = (\<lambda>a v. Inr ((1, limit \<le> Suc v), Suc v)),
      gain = (\<lambda>v. real v),
      clock = (\<lambda>v. int v)\<rparr>"

definition peeking_learner :: "(nat list, nat, nat, real, unit) learner" where
  "peeking_learner =
     \<lparr>get_next_action = (\<lambda>s h. (Inr (h ! s), h)),
      update = (\<lambda>s r a t h. (Inr (), h)),
      weights = (\<lambda>h. ())\<rparr>"

section \<open>Facts about programs\<close>

subsection \<open>Runs that return normally\<close>

lemma bind_InrE:
  assumes "bind m f w = Some (Inr y, tr, w')"
  obtains x tr1 w1 tr2 where "m w = Some (Inr x, tr1, w1)"
    and "f x w1 = Some (Inr y, tr2, w')" and "tr = tr1 @ tr2"
  using assms by (auto simp: bind_def split: option.splits sum.splits prod.splits)
lemma bind_InrI:
  "m w = Some (Inr x, tr1, w1) \<Longrightarrow> f x w1 = Some (r, tr2, w2) \<Longrightarrow>
   bind m f w = Some (r, tr1 @ tr2, w2)"
  by (simp add: bind_def)
lemma ret_Inr [simp]: "ret x w = Some (Inr y, tr, w') \<longleftrightarrow> y = x \<and> tr = [] \<and> w' = w"
  by (auto simp: ret_def)
lemma read_Inr [simp]: "read f w = Some (Inr y, tr, w') \<longleftrightarrow> y = f w \<and> tr = [] \<and> w' = w"
  by (auto simp: read_def)
lemma log_line_Inr [simp]:
  "log_line lv msg w = Some (Inr y, tr, w') \<longleftrightarrow> tr = [Log lv msg] \<and> w' = w"
  by (auto simp: log_line_def)
lemma input_Inr [simp]:
  "input p w = Some (Inr y, tr, w') \<longleftrightarrow> tr = [Input p] \<and> w' = w"
  by (auto simp: input_def)
lemma invoke_Inr [simp]:
  "invoke ev m w = Some (Inr x, tr, w') \<longleftrightarrow> m w = (Inr x, w') \<and> tr = [Call (ev x)]"
  by (auto simp: invoke_def split: prod.splits sum.splits)
lemma subscript_Inr [simp]:
  "subscript xs i w = Some (Inr p, tr, w') \<longleftrightarrow> py_index xs i = Inr p \<and> tr = [] \<and> w' = w"
  by (auto simp: subscript_def raise_def ret_def split: sum.splits)
lemma py_index_Inr:
  "py_index xs i = Inr p \<Longrightarrow> p < length xs \<and> (0 \<le> i \<longrightarrow> i = int p) \<and> (i < 0 \<longrightarrow> int p = int (length xs) + i)"
  by (auto simp: py_index_def Let_def split: if_splits)
text \<open>
  A finished \<open>for\<close> loop: a property of event lists that holds of every pass and is kept
  by concatenation holds of the whole loop; and when the events of a pass depend on the
  element only, the loop's events are those of its passes in order.
\<close>

lemma for_each_Inr:
  assumes "for_each xs body w = Some (Inr u, tr, w')"
    and "\<And>x w tr w'. x \<in> set xs \<Longrightarrow> body x w = Some (Inr (), tr, w') \<Longrightarrow> Q tr"
    and "Q []" and "\<And>a b. Q a \<Longrightarrow> Q b \<Longrightarrow> Q (a @ b)"
  shows "Q tr"
  using assms(1,2)
proof (induction xs arbitrary: w tr)
  case Nil
  then show ?case using assms(3) by simp
next
  case (Cons x xs)
  from Cons.prems(1) obtain tr1 w1 tr2 where
    b: "body x w = Some (Inr (), tr1, w1)" and r: "for_each xs body w1 = Some (Inr u, tr2, w')"
    and tr: "tr = tr1 @ tr2"
    by (auto elim!: bind_InrE)
  have "Q tr1" by (rule Cons.prems(2) [OF _ b]) simp
  moreover have "Q tr2"
  proof (rule Cons.IH [OF r])
    fix y v t v' assume "y \<in> set xs" and "body y v = Some (Inr (), t, v')"
    then show "Q t" using Cons.prems(2) [of y v t v'] by simp
  qed
  ultimately show ?case using assms(4) tr by simp
qed
lemma for_each_trace:
  assumes "for_each xs body w = Some (Inr u, tr, w')"
    and "\<And>x w tr w'. x \<in> set xs \<Longrightarrow> body x w = Some (Inr (), tr, w') \<Longrightarrow> tr = g x"
  shows "tr = concat (map g xs)"
  using assms
proof (induction xs arbitrary: w tr)
  case Nil
  then show ?case by simp
next
  case (Cons x xs)
  from Cons.prems(1) obtain tr1 w1 tr2 where
    b: "body x w = Some (Inr (), tr1, w1)" and r: "for_each xs body w1 = Some (Inr u, tr2, w')"
    and tr: "tr = tr1 @ tr2"
    by (auto elim!: bind_InrE)
  have "tr1 = g x" by (rule Cons.prems(2) [OF _ b]) simp
  moreover have "tr2 = concat (map g xs)"
  proof (rule Cons.IH [OF r])
    fix y v t v' assume "y \<in> set xs" and "body y v = Some (Inr (), t, v')"
    then show "t = g y" using Cons.prems(2) [of y v t v'] by simp
  qed
  ultimately show ?case using tr by simp
qed
text \<open>
  A finished \<open>while\<close> loop, by induction on its passes: the last test of the condition
  answers true; every pass before it is a test that answers false and a body that returns.
\<close>

lemma while_not_induct [consumes 1, case_names stop pass]:
  assumes "while_not fuel cond body w = Some (Inr u, tr, w')"
    and "\<And>w tr w'. cond w = Some (Inr True, tr, w') \<Longrightarrow> P w tr w'"
    and "\<And>w tc w1 tb w2 tr w'. cond w = Some (Inr False, tc, w1) \<Longrightarrow>
           body w1 = Some (Inr (), tb, w2) \<Longrightarrow> P w2 tr w' \<Longrightarrow> P w (tc @ tb @ tr) w'"
  shows "P w tr w'"
  using assms(1)
proof (induction fuel arbitrary: w tr)
  case 0
  then show ?case by simp
next
  case (Suc fuel)
  from Suc.prems obtain stop tc w1 t2 where
    c: "cond w = Some (Inr stop, tc, w1)"
    and k: "(if stop then ret () else bind body (\<lambda>_. while_not fuel cond body)) w1 = Some (Inr u, t2, w')"
    and tr: "tr = tc @ t2"
    by (auto elim!: bind_InrE)
  show ?case
  proof (cases stop)
    case True
    with c k tr show ?thesis using assms(2) by simp
  next
    case False
    with k obtain tb w2 t3 where b: "body w1 = Some (Inr (), tb, w2)"
      and l: "while_not fuel cond body w2 = Some (Inr u, t3, w')" and t2: "t2 = tb @ t3"
      by (auto elim!: bind_InrE)
    from Suc.IH [OF l] have "P w2 t3 w'" .
    with c b False tr t2 show ?thesis using assms(3) by simp
  qed
qed
text \<open>More fuel never changes the outcome of a loop that finished.\<close>

lemma while_not_mono:
  "while_not fuel cond body w = Some r \<Longrightarrow> while_not (fuel + k) cond body w = Some r"
proof (induction fuel arbitrary: w r)
  case 0
  then show ?case by simp
next
  case (Suc fuel)
  then show ?case
    by (auto simp: bind_def ret_def split: option.splits sum.splits prod.splits if_splits)
qed
subsection \<open>Events of the game driver\<close>

lemma map_filter_append:
  "List.map_filter f (xs @ ys) = List.map_filter f xs @ List.map_filter f ys"
  by (simp add: List.map_filter_def)
lemma map_filter_map_None:
  "(\<And>x. f (g x) = None) \<Longrightarrow> List.map_filter f (map g xs) = []"
  by (induction xs) simp_all
lemmas game_projections =
  transitions_def notifications_def searches_def acting_ids_def terminal_reports_def
  winners_read_def winners_logged_def
lemma game_projections_append:
  "transitions (a @ b) = transitions a @ transitions b"
  "notifications i (a @ b) = notifications i a @ notifications i b"
  "searches (a @ b) = searches a @ searches b"
  "acting_ids (a @ b) = acting_ids a @ acting_ids b"
  "terminal_reports (a @ b) = terminal_reports a @ terminal_reports b"
  "winners_read (a @ b) = winners_read a @ winners_read b"
  "winners_logged (a @ b) = winners_logged a @ winners_logged b"
  by (simp_all add: game_projections map_filter_append)
lemma quiet_append: "quiet a \<Longrightarrow> quiet b \<Longrightarrow> quiet (a @ b)"
  by (simp add: quiet_def game_projections_append)
lemma notifications_enumerate:
  "notifications i (map (notice a c) (enumerate n agents)) =
     (if n \<le> i \<and> i < n + length agents then [(a, agent_id (agents ! (i - n)) = c)] else [])"
  by (induction agents arbitrary: n)
     (auto simp: notifications_def notice_def nth_Cons' Suc_diff_le)
lemma others_enumerate:
  "transitions (map (notice a c) xs) = []"
  "searches (map (notice a c) xs) = []"
  "acting_ids (map (notice a c) xs) = []"
  "terminal_reports (map (notice a c) xs) = []"
  "winners_read (map (notice a c) xs) = []"
  "winners_logged (map (notice a c) xs) = []"
  unfolding game_projections notice_def
  by (rule map_filter_map_None, simp split: prod.splits)+
lemma concat_singletons: "concat (map (\<lambda>x. [f x]) xs) = map f xs"
  by (induction xs) simp_all
lemma advance_by_action_trace:
  assumes "advance_by_action game agents a w = Some (Inr u, tr, w')"
  shows "tr = [Log DEBUG (MsgAction (current_agent_id game w) a), Call (GameTakeAction a)] @
              map (notice a (current_agent_id game w)) (enumerate 0 agents)"
proof -
  let ?c = "current_agent_id game w"
  from assms obtain w1 t2 where
    f: "for_each (enumerate 0 agents) (\<lambda>(i, agent).
          invoke (\<lambda>_. AgentTakeAction i a (agent_id agent = ?c))
            (agent_take_action agent a (agent_id agent = ?c))) w1 = Some (Inr u, t2, w')"
    and tr: "tr = [Log DEBUG (MsgAction ?c a), Call (GameTakeAction a)] @ t2"
    unfolding advance_by_action_def by (auto elim!: bind_InrE)
  have "t2 = concat (map (\<lambda>x. [notice a ?c x]) (enumerate 0 agents))"
    by (rule for_each_trace [OF f]) (auto simp: notice_def)
  then show ?thesis using tr by (simp add: concat_singletons)
qed
lemma game_turn_trace:
  assumes "game_turn game agents t w = Some (Inr u, tr, w')"
  shows "\<exists>p s a w1 w2. py_index agents (current_agent_id game w) = Inr p \<and>
           game_copy game w = (Inr s, w1) \<and> search (agents ! p) s t w1 = (Inr a, w2) \<and>
           tr = [Call (GameCopy s), Call (AgentSearch p s t a),
                 Log DEBUG (MsgAgent (agent_id (agents ! p)) (agent_str (agents ! p) w2)),
                 Log DEBUG (MsgAction (current_agent_id game w2) a), Call (GameTakeAction a)] @
                map (notice a (current_agent_id game w2)) (enumerate 0 agents)"
proof -
  from assms obtain p s w1 a w2 t2 where
    "py_index agents (current_agent_id game w) = Inr p" "game_copy game w = (Inr s, w1)"
    "search (agents ! p) s t w1 = (Inr a, w2)"
    and adv: "advance_by_action game agents a w2 = Some (Inr u, t2, w')"
    and "tr = [Call (GameCopy s), Call (AgentSearch p s t a),
               Log DEBUG (MsgAgent (agent_id (agents ! p)) (agent_str (agents ! p) w2))] @ t2"
    unfolding game_turn_def by (auto elim!: bind_InrE)
  then show ?thesis using advance_by_action_trace [OF adv] by simp
qed
lemma game_turn_summary:
  assumes "game_turn game agents t w = Some (Inr u, tr, w')"
  shows "\<exists>p a c. py_index agents (current_agent_id game w) = Inr p \<and>
           transitions tr = [a] \<and> searches tr = [(p, a)] \<and> acting_ids tr = [c] \<and>
           (\<forall>i. notifications i tr =
                  (if i < length agents then [(a, agent_id (agents ! i) = c)] else [])) \<and>
           terminal_reports tr = [] \<and> winners_read tr = [] \<and> winners_logged tr = []"
proof -
  from game_turn_trace [OF assms] obtain p s a w1 w2 where
    p: "py_index agents (current_agent_id game w) = Inr p"
    and tr: "tr = [Call (GameCopy s), Call (AgentSearch p s t a),
                 Log DEBUG (MsgAgent (agent_id (agents ! p)) (agent_str (agents ! p) w2)),
                 Log DEBUG (MsgAction (current_agent_id game w2) a), Call (GameTakeAction a)] @
                map (notice a (current_agent_id game w2)) (enumerate 0 agents)"
    by blast
  let ?c = "current_agent_id game w2"
  let ?pre = "[Call (GameCopy s), Call (AgentSearch p s t a),
                 Log DEBUG (MsgAgent (agent_id (agents ! p)) (agent_str (agents ! p) w2)),
                 Log DEBUG (MsgAction ?c a), Call (GameTakeAction a)]"
  have pre: "transitions ?pre = [a]" "searches ?pre = [(p, a)]" "acting_ids ?pre = [?c]"
    "\<And>i. notifications i ?pre = []" "terminal_reports ?pre = []" "winners_read ?pre = []"
    "winners_logged ?pre = []"
    by (simp_all add: game_projections)
  show ?thesis
    using p unfolding tr game_projections_append pre others_enumerate notifications_enumerate
    by simp
qed
lemma terminal_test_summary:
  assumes "invoke GameIsTerminal (is_terminal game) w = Some (Inr b, tr, w')"
  shows "transitions tr = []" "searches tr = []" "acting_ids tr = []"
    "notifications i tr = []" "terminal_reports tr = [b]" "winners_read tr = []"
    "winners_logged tr = []"
  using assms by (auto simp: game_projections)
text \<open>What the events of a finished game loop look like, whatever the game and agents.\<close>

lemma game_loop_summary:
  assumes "while_not fuel (invoke GameIsTerminal (is_terminal game))
             (game_turn game agents t) w = Some (Inr u, tr, w')"
  shows "map snd (searches tr) = transitions tr \<and>
         length (acting_ids tr) = length (transitions tr) \<and>
         (\<forall>i<length agents. map fst (notifications i tr) = transitions tr \<and>
            map snd (notifications i tr) = map (\<lambda>c. agent_id (agents ! i) = c) (acting_ids tr)) \<and>
         (\<forall>i. length agents \<le> i \<longrightarrow> notifications i tr = []) \<and>
         terminal_reports tr = replicate (length (transitions tr)) False @ [True] \<and>
         winners_read tr = [] \<and> winners_logged tr = []"
  using assms
proof (induction rule: while_not_induct)
  case (stop w tr w')
  then show ?case by (auto simp: game_projections)
next
  case (pass w tc w1 tb w2 tr w')
  from game_turn_summary [OF pass(2)] obtain p a c where
    "transitions tb = [a]" "searches tb = [(p, a)]" "acting_ids tb = [c]"
    "\<forall>i. notifications i tb = (if i < length agents then [(a, agent_id (agents ! i) = c)] else [])"
    "terminal_reports tb = []" "winners_read tb = []" "winners_logged tb = []"
    by blast
  with pass(3) show ?case
    by (simp add: game_projections_append terminal_test_summary [OF pass(1)])
qed
lemma agent_resets_quiet:
  assumes "for_each (enumerate 0 agents) (\<lambda>(i, agent).
             bind (invoke (\<lambda>_. AgentReset i) (agent_reset agent)) (\<lambda>_.
             (\<lambda>w. log_line DEBUG (MsgAgentStart (agent_id agent) (agent_str agent w)) w))) w
           = Some (Inr u, tr, w')"
  shows "quiet tr"
proof (rule for_each_Inr [OF assms], goal_cases)
  case (1 x w tr w')
  obtain i ag where x: "x = (i, ag)" by (cases x)
  from 1(2) show ?case unfolding x
    by (auto elim!: bind_InrE simp: quiet_def game_projections)
next
  case 2
  show ?case by (simp add: quiet_def game_projections)
next
  case (3 a b)
  then show ?case by (rule quiet_append)
qed
text \<open>A finished episode: the resets, then the loop, then the winner read and logged.\<close>

lemma run_game_parts:
  assumes "run_game fuel game agents t w = Some (Inr u, tr, w')"
  obtains t0 w0 tl w1 win fin where
    "tr = t0 @ tl @ [Call (GameGetWinningId win), Log INFO (MsgWinner win), fin]"
    "quiet t0" "quiet [fin]"
    "while_not fuel (invoke GameIsTerminal (is_terminal game))
       (game_turn game agents t) w0 = Some (Inr (), tl, w1)"
proof -
  from assms [unfolded run_game_def] obtain x1 ta w1 tb where
    a1: "invoke (\<lambda>_. GameReset) (game_reset game) w = Some (Inr x1, ta, w1)"
    and tr1: "tr = ta @ tb"
    and k1: "bind (for_each (enumerate 0 agents) (\<lambda>(i, agent).
             bind (invoke (\<lambda>_. AgentReset i) (agent_reset agent)) (\<lambda>_.
             (\<lambda>w. log_line DEBUG (MsgAgentStart (agent_id agent) (agent_str agent w)) w)))) (\<lambda>_.
     bind (while_not fuel (invoke GameIsTerminal (is_terminal game))
             (game_turn game agents t)) (\<lambda>_.
     bind (invoke GameGetWinningId (get_winning_id game)) (\<lambda>winner.
     bind (log_line INFO (MsgWinner winner)) (\<lambda>_.
     (\<lambda>w. log_line DEBUG (MsgFinalState (game_str game w)) w))))) w1 = Some (Inr u, tb, w')"
    by (rule bind_InrE)
  from k1 obtain x2 tc w2 td where
    r: "for_each (enumerate 0 agents) (\<lambda>(i, agent).
             bind (invoke (\<lambda>_. AgentReset i) (agent_reset agent)) (\<lambda>_.
             (\<lambda>w. log_line DEBUG (MsgAgentStart (agent_id agent) (agent_str agent w)) w))) w1
         = Some (Inr x2, tc, w2)"
    and tr2: "tb = tc @ td"
    and k2: "bind (while_not fuel (invoke GameIsTerminal (is_terminal game))
             (game_turn game agents t)) (\<lambda>_.
     bind (invoke GameGetWinningId (get_winning_id game)) (\<lambda>winner.
     bind (log_line INFO (MsgWinner winner)) (\<lambda>_.
     (\<lambda>w. log_line DEBUG (MsgFinalState (game_str game w)) w)))) w2 = Some (Inr u, td, w')"
    by (rule bind_InrE)
  from k2 obtain x3 tl w3 te where
    l: "while_not fuel (invoke GameIsTerminal (is_terminal game))
             (game_turn game agents t) w2 = Some (Inr x3, tl, w3)"
    and tr3: "td = tl @ te"
    and k3: "bind (invoke GameGetWinningId (get_winning_id game)) (\<lambda>winner.
     bind (log_line INFO (MsgWinner winner)) (\<lambda>_.
     (\<lambda>w. log_line DEBUG (MsgFinalState (game_str game w)) w))) w3 = Some (Inr u, te, w')"
    by (rule bind_InrE)
  from k3 obtain win where
    te: "te = [Call (GameGetWinningId win), Log INFO (MsgWinner win),
               Log DEBUG (MsgFinalState (game_str game w'))]"
    by (auto elim!: bind_InrE)
  have ta: "quiet ta" using a1 by (auto simp: quiet_def game_projections)
  have q0: "quiet (ta @ tc)" by (rule quiet_append [OF ta agent_resets_quiet [OF r]])
  have eq: "tr = (ta @ tc) @ tl @ [Call (GameGetWinningId win), Log INFO (MsgWinner win),
               Log DEBUG (MsgFinalState (game_str game w'))]"
    using tr1 tr2 tr3 te by simp
  have l': "while_not fuel (invoke GameIsTerminal (is_terminal game))
             (game_turn game agents t) w2 = Some (Inr (), tl, w3)"
    using l by simp
  show ?thesis
    by (rule that [OF eq q0 _ l']) (simp add: quiet_def game_projections)
qed
lemma run_game_summary:
  assumes "run_game fuel game agents t w = Some (Inr u, tr, w')"
  shows "map snd (searches tr) = transitions tr \<and>
         length (acting_ids tr) = length (transitions tr) \<and>
         (\<forall>i<length agents. map fst (notifications i tr) = transitions tr \<and>
            map snd (notifications i tr) = map (\<lambda>c. agent_id (agents ! i) = c) (acting_ids tr)) \<and>
         (\<forall>i. length agents \<le> i \<longrightarrow> notifications i tr = []) \<and>
         terminal_reports tr = replicate (length (transitions tr)) False @ [True] \<and>
         (\<exists>win. winners_read tr = [win] \<and> winners_logged tr = [win])"
proof -
  from assms obtain t0 w0 tl w1 win fin where
    tr: "tr = t0 @ tl @ [Call (GameGetWinningId win), Log INFO (MsgWinner win), fin]"
    and q: "quiet t0" "quiet [fin]"
    and l: "while_not fuel (invoke GameIsTerminal (is_terminal game))
             (game_turn game agents t) w0 = Some (Inr (), tl, w1)"
    by (rule run_game_parts)
  have fin: "transitions [fin] = []" "searches [fin] = []" "acting_ids [fin] = []"
    "\<And>i. notifications i [fin] = []" "terminal_reports [fin] = []" "winners_read [fin] = []"
    "winners_logged [fin] = []"
    using q(2) by (simp_all add: quiet_def)
  have t0: "transitions t0 = []" "searches t0 = []" "acting_ids t0 = []"
    "\<And>i. notifications i t0 = []" "terminal_reports t0 = []" "winners_read t0 = []"
    "winners_logged t0 = []"
    using q(1) by (simp_all add: quiet_def)
  have split: "tr = t0 @ tl @ [Call (GameGetWinningId win), Log INFO (MsgWinner win)] @ [fin]"
    using tr by simp
  have mid: "transitions [Call (GameGetWinningId win), Log INFO (MsgWinner win)] = []"
    "searches [Call (GameGetWinningId win), Log INFO (MsgWinner win)] = []"
    "acting_ids [Call (GameGetWinningId win), Log INFO (MsgWinner win)] = []"
    "\<And>i. notifications i [Call (GameGetWinningId win), Log INFO (MsgWinner win)] = []"
    "terminal_reports [Call (GameGetWinningId win), Log INFO (MsgWinner win)] = []"
    "winners_read [Call (GameGetWinningId win), Log INFO (MsgWinner win)] = [win]"
    "winners_logged [Call (GameGetWinningId win), Log INFO (MsgWinner win)] = [win]"
    by (simp_all add: game_projections)
  show ?thesis
    using game_loop_summary [OF l]
    unfolding split game_projections_append t0 fin mid by simp
qed
subsection \<open>Events of the MDP driver\<close>

lemmas mdp_projections =
  steps_def updates_def copies_def queries_def mdp_terminal_reports_def results_logged_def
lemma mdp_projections_append:
  "steps (a @ b) = steps a @ steps b"
  "updates (a @ b) = updates a @ updates b"
  "copies (a @ b) = copies a @ copies b"
  "queries (a @ b) = queries a @ queries b"
  "mdp_terminal_reports (a @ b) = mdp_terminal_reports a @ mdp_terminal_reports b"
  "results_logged (a @ b) = results_logged a @ results_logged b"
  by (simp_all add: mdp_projections map_filter_append)
lemma trial_step_chain:
  assumes "trial_step mdp agent w = Some (Inr u, tr, w')"
  obtains s1 w1 a w2 s2 w3 r t w4 where
    "mdp_copy mdp w = (Inr s1, w1)" "get_next_action agent s1 w1 = (Inr a, w2)"
    "mdp_copy mdp w2 = (Inr s2, w3)" "step mdp a w3 = (Inr (r, t), w4)"
    "update agent s2 r a t w4 = (Inr (), w')"
    "tr = [Call (MdpCopy s1), Call (GetNextAction s1 a), Call (MdpCopy s2),
           Call (Step a r t), Call (Update s2 r a t)]"
proof -
  from assms [unfolded trial_step_def] obtain s1 ta w1 tb where
    a1: "invoke MdpCopy (mdp_copy mdp) w = Some (Inr s1, ta, w1)" and t1: "tr = ta @ tb"
    and k1: "bind (invoke (GetNextAction s1) (get_next_action agent s1)) (\<lambda>action.
       bind (invoke MdpCopy (mdp_copy mdp)) (\<lambda>prev_state.
       bind (invoke (\<lambda>(reward, terminal). Step action reward terminal) (step mdp action))
         (\<lambda>(reward, terminal).
       invoke (\<lambda>_. Update prev_state reward action terminal)
         (update agent prev_state reward action terminal)))) w1 = Some (Inr u, tb, w')"
    by (rule bind_InrE)
  from k1 obtain a tc w2 td where
    a2: "invoke (GetNextAction s1) (get_next_action agent s1) w1 = Some (Inr a, tc, w2)"
    and t2: "tb = tc @ td"
    and k2: "bind (invoke MdpCopy (mdp_copy mdp)) (\<lambda>prev_state.
       bind (invoke (\<lambda>(reward, terminal). Step a reward terminal) (step mdp a))
         (\<lambda>(reward, terminal).
       invoke (\<lambda>_. Update prev_state reward a terminal)
         (update agent prev_state reward a terminal))) w2 = Some (Inr u, td, w')"
    by (rule bind_InrE)
  from k2 obtain s2 te w3 tf where
    a3: "invoke MdpCopy (mdp_copy mdp) w2 = Some (Inr s2, te, w3)" and t3: "td = te @ tf"
    and k3: "bind (invoke (\<lambda>(reward, terminal). Step a reward terminal) (step mdp a))
         (\<lambda>(reward, terminal).
       invoke (\<lambda>_. Update s2 reward a terminal)
         (update agent s2 reward a terminal)) w3 = Some (Inr u, tf, w')"
    by (rule bind_InrE)
  from k3 obtain rt tg w4 th where
    a4: "invoke (\<lambda>(reward, terminal). Step a reward terminal) (step mdp a) w3 = Some (Inr rt, tg, w4)"
    and t4: "tf = tg @ th"
    and k4: "(case rt of (reward, terminal) \<Rightarrow>
       invoke (\<lambda>_. Update s2 reward a terminal)
         (update agent s2 reward a terminal)) w4 = Some (Inr u, th, w')"
    by (rule bind_InrE)
  obtain r t where rt: "rt = (r, t)" by (cases rt)
  from a1 have b1: "mdp_copy mdp w = (Inr s1, w1)" and ta: "ta = [Call (MdpCopy s1)]" by simp_all
  from a2 have b2: "get_next_action agent s1 w1 = (Inr a, w2)"
    and tc: "tc = [Call (GetNextAction s1 a)]" by simp_all
  from a3 have b3: "mdp_copy mdp w2 = (Inr s2, w3)" and te: "te = [Call (MdpCopy s2)]" by simp_all
  from a4 have b4: "step mdp a w3 = (Inr (r, t), w4)" and tg: "tg = [Call (Step a r t)]"
    unfolding rt by simp_all
  from k4 have b5: "update agent s2 r a t w4 = (Inr (), w')" and th: "th = [Call (Update s2 r a t)]"
    unfolding rt by simp_all
  have "tr = [Call (MdpCopy s1), Call (GetNextAction s1 a), Call (MdpCopy s2),
           Call (Step a r t), Call (Update s2 r a t)]"
    unfolding t1 t2 t3 t4 ta tc te tg th by simp
  with b1 b2 b3 b4 b5 show ?thesis by (rule that)
qed
lemma trial_loop_shape:
  assumes "while_not fuel (invoke MdpIsTerminal (mdp_is_terminal mdp))
             (trial_step mdp agent) w = Some (Inr u, tr, w')"
  shows "\<exists>its. tr = concat (map iteration_events its) @ [Call (MdpIsTerminal True)]"
  using assms
proof (induction rule: while_not_induct)
  case (stop w tr w')
  then have "tr = concat (map iteration_events []) @ [Call (MdpIsTerminal True)]" by auto
  then show ?case by blast
next
  case (pass w tc w1 tb w2 tr w')
  from pass(3) obtain its where
    tr: "tr = concat (map iteration_events its) @ [Call (MdpIsTerminal True)]" by blast
  from pass(2) obtain s1 a s2 r t where
    tb: "tb = [Call (MdpCopy s1), Call (GetNextAction s1 a), Call (MdpCopy s2),
               Call (Step a r t), Call (Update s2 r a t)]"
    by (rule trial_step_chain)
  from pass(1) have tc: "tc = [Call (MdpIsTerminal False)]" by simp
  have "tc @ tb @ tr = concat (map iteration_events ((s1, a, s2, r, t) # its)) @
          [Call (MdpIsTerminal True)]"
    unfolding tc tb tr by simp
  then show ?case by blast
qed
lemma iteration_projections:
  "steps (iteration_events (s1, a, s2, r, t)) = [(a, r, t)]"
  "updates (iteration_events (s1, a, s2, r, t)) = [(s2, r, a, t)]"
  "copies (iteration_events (s1, a, s2, r, t)) = [s1, s2]"
  "queries (iteration_events (s1, a, s2, r, t)) = [(s1, a)]"
  "mdp_terminal_reports (iteration_events (s1, a, s2, r, t)) = [False]"
  by (simp_all add: mdp_projections)
lemma last_test_projections:
  "steps [Call (MdpIsTerminal b)] = []"
  "updates [Call (MdpIsTerminal b)] = []"
  "copies [Call (MdpIsTerminal b)] = []"
  "queries [Call (MdpIsTerminal b)] = []"
  "mdp_terminal_reports [Call (MdpIsTerminal b)] = [b]"
  by (simp_all add: mdp_projections)
lemma steps_after_reset: "steps (Call MdpReset # rest) = steps rest"
  "updates (Call MdpReset # rest) = updates rest" "copies (Call MdpReset # rest) = copies rest"
  "queries (Call MdpReset # rest) = queries rest"
  "mdp_terminal_reports (Call MdpReset # rest) = mdp_terminal_reports rest"
  by (simp_all add: mdp_projections)
lemma shape_steps:
  "steps (concat (map iteration_events its) @ [Call (MdpIsTerminal True)]) =
     map (\<lambda>(s1, a, s2, r, t). (a, r, t)) its"
proof (induction its)
  case Nil
  show ?case by (simp add: last_test_projections)
next
  case (Cons it its)
  obtain s1 a s2 r t where it: "it = (s1, a, s2, r, t)" by (cases it)
  show ?case using Cons unfolding it
    by (simp add: mdp_projections_append iteration_projections del: iteration_events.simps)
qed
lemma shape_updates:
  "updates (concat (map iteration_events its) @ [Call (MdpIsTerminal True)]) =
     map (\<lambda>(s1, a, s2, r, t). (s2, r, a, t)) its"
proof (induction its)
  case Nil
  show ?case by (simp add: last_test_projections)
next
  case (Cons it its)
  obtain s1 a s2 r t where it: "it = (s1, a, s2, r, t)" by (cases it)
  show ?case using Cons unfolding it
    by (simp add: mdp_projections_append iteration_projections del: iteration_events.simps)
qed
lemma shape_copies:
  "copies (concat (map iteration_events its) @ [Call (MdpIsTerminal True)]) =
     concat (map (\<lambda>(s1, a, s2, r, t). [s1, s2]) its)"
proof (induction its)
  case Nil
  show ?case by (simp add: last_test_projections)
next
  case (Cons it its)
  obtain s1 a s2 r t where it: "it = (s1, a, s2, r, t)" by (cases it)
  show ?case using Cons unfolding it
    by (simp add: mdp_projections_append iteration_projections del: iteration_events.simps)
qed
lemma shape_queries:
  "queries (concat (map iteration_events its) @ [Call (MdpIsTerminal True)]) =
     map (\<lambda>(s1, a, s2, r, t). (s1, a)) its"
proof (induction its)
  case Nil
  show ?case by (simp add: last_test_projections)
next
  case (Cons it its)
  obtain s1 a s2 r t where it: "it = (s1, a, s2, r, t)" by (cases it)
  show ?case using Cons unfolding it
    by (simp add: mdp_projections_append iteration_projections del: iteration_events.simps)
qed
lemma shape_terminal_reports:
  "mdp_terminal_reports (concat (map iteration_events its) @ [Call (MdpIsTerminal True)]) =
     replicate (length its) False @ [True]"
proof (induction its)
  case Nil
  show ?case by (simp add: last_test_projections)
next
  case (Cons it its)
  obtain s1 a s2 r t where it: "it = (s1, a, s2, r, t)" by (cases it)
  show ?case using Cons unfolding it
    by (simp add: mdp_projections_append iteration_projections del: iteration_events.simps)
qed
lemma shape_in_order:
  "updates_in_order before2 before1
     (concat (map iteration_events its) @ [Call (MdpIsTerminal True)])"
proof (induction its arbitrary: before2 before1)
  case Nil
  show ?case by (simp add: update_in_order_def)
next
  case (Cons it its)
  obtain s1 a s2 r t where it: "it = (s1, a, s2, r, t)" by (cases it)
  show ?case unfolding it by (simp add: update_in_order_def Cons)
qed
lemma counts_timesteps_reset:
  "counts_timesteps mdp agent \<Longrightarrow> mdp_reset mdp w = (Inr (), w') \<Longrightarrow> timesteps mdp w' = 0"
  unfolding counts_timesteps_def by (elim conjE allE [of _ w] allE [of _ w'] impE) assumption+
lemma counts_timesteps_test:
  "counts_timesteps mdp agent \<Longrightarrow> mdp_is_terminal mdp w = (Inr b, w') \<Longrightarrow>
   timesteps mdp w' = timesteps mdp w"
  unfolding counts_timesteps_def by fast
lemma counts_timesteps_copy:
  "counts_timesteps mdp agent \<Longrightarrow> mdp_copy mdp w = (Inr s, w') \<Longrightarrow>
   timesteps mdp w' = timesteps mdp w"
  unfolding counts_timesteps_def by fast
lemma counts_timesteps_ask:
  "counts_timesteps mdp agent \<Longrightarrow> get_next_action agent s w = (Inr a, w') \<Longrightarrow>
   timesteps mdp w' = timesteps mdp w"
  unfolding counts_timesteps_def by fast
lemma counts_timesteps_step:
  "counts_timesteps mdp agent \<Longrightarrow> step mdp a w = (Inr (r, t), w') \<Longrightarrow>
   timesteps mdp w' = timesteps mdp w + 1"
  unfolding counts_timesteps_def by fast
lemma counts_timesteps_update:
  "counts_timesteps mdp agent \<Longrightarrow> update agent s r a t w = (Inr (), w') \<Longrightarrow>
   timesteps mdp w' = timesteps mdp w"
  unfolding counts_timesteps_def by fast
lemma trial_loop_counts:
  assumes "while_not fuel (invoke MdpIsTerminal (mdp_is_terminal mdp))
             (trial_step mdp agent) w = Some (Inr u, tr, w')"
    and ct: "counts_timesteps mdp agent"
  shows "timesteps mdp w' = timesteps mdp w + int (length (steps tr))"
  using assms(1)
proof (induction rule: while_not_induct)
  case (stop w tr w')
  then have tr: "tr = [Call (MdpIsTerminal True)]"
    and it: "mdp_is_terminal mdp w = (Inr True, w')" by simp_all
  have "timesteps mdp w' = timesteps mdp w" by (rule counts_timesteps_test [OF ct it])
  then show ?case unfolding tr by (simp add: last_test_projections)
next
  case (pass w tc w1 tb w2 tr w')
  from pass(1) have tc: "tc = [Call (MdpIsTerminal False)]"
    and it: "mdp_is_terminal mdp w = (Inr False, w1)" by simp_all
  have e0: "timesteps mdp w1 = timesteps mdp w" by (rule counts_timesteps_test [OF ct it])
  from pass(2) obtain s1 v1 a v2 s2 v3 r t v4 where
    c: "mdp_copy mdp w1 = (Inr s1, v1)" "get_next_action agent s1 v1 = (Inr a, v2)"
    "mdp_copy mdp v2 = (Inr s2, v3)" "step mdp a v3 = (Inr (r, t), v4)"
    "update agent s2 r a t v4 = (Inr (), w2)"
    and tb: "tb = [Call (MdpCopy s1), Call (GetNextAction s1 a), Call (MdpCopy s2),
           Call (Step a r t), Call (Update s2 r a t)]"
    by (rule trial_step_chain)
  have e1: "timesteps mdp v1 = timesteps mdp w1" by (rule counts_timesteps_copy [OF ct c(1)])
  have e2: "timesteps mdp v2 = timesteps mdp v1" by (rule counts_timesteps_ask [OF ct c(2)])
  have e3: "timesteps mdp v3 = timesteps mdp v2" by (rule counts_timesteps_copy [OF ct c(3)])
  have e4: "timesteps mdp v4 = timesteps mdp v3 + 1" by (rule counts_timesteps_step [OF ct c(4)])
  have e5: "timesteps mdp w2 = timesteps mdp v4" by (rule counts_timesteps_update [OF ct c(5)])
  have one: "timesteps mdp w2 = timesteps mdp w + 1"
    unfolding e5 e4 e3 e2 e1 e0 by (rule refl)
  have st: "steps (tc @ tb @ tr) = (a, r, t) # steps tr"
    unfolding tc tb by (simp add: mdp_projections)
  show ?case unfolding st pass(3) one by simp
qed
lemma run_trial_parts:
  assumes "run_trial fuel mdp agent w = Some (Inr n, tr, w')"
  obtains w0 tl where "mdp_reset mdp w = (Inr (), w0)"
    "while_not fuel (invoke MdpIsTerminal (mdp_is_terminal mdp))
       (trial_step mdp agent) w0 = Some (Inr (), tl, w')"
    "tr = Call MdpReset # tl" "n = timesteps mdp w'"
proof -
  from assms [unfolded run_trial_def] obtain x ta w0 tb where
    a1: "invoke (\<lambda>_. MdpReset) (mdp_reset mdp) w = Some (Inr x, ta, w0)" and t1: "tr = ta @ tb"
    and k1: "bind (while_not fuel (invoke MdpIsTerminal (mdp_is_terminal mdp))
             (trial_step mdp agent)) (\<lambda>_. read (timesteps mdp)) w0 = Some (Inr n, tb, w')"
    by (rule bind_InrE)
  from k1 obtain y tl w1 tc where
    l: "while_not fuel (invoke MdpIsTerminal (mdp_is_terminal mdp))
             (trial_step mdp agent) w0 = Some (Inr y, tl, w1)" and t2: "tb = tl @ tc"
    and k2: "read (timesteps mdp) w1 = Some (Inr n, tc, w')"
    by (rule bind_InrE)
  from k2 have w1: "w1 = w'" and n: "n = timesteps mdp w'" and tc: "tc = []" by simp_all
  from a1 have r: "mdp_reset mdp w = (Inr (), w0)" and ta: "ta = [Call MdpReset]" by simp_all
  have tr: "tr = Call MdpReset # tl" unfolding t1 t2 ta tc by simp
  from l have l': "while_not fuel (invoke MdpIsTerminal (mdp_is_terminal mdp))
             (trial_step mdp agent) w0 = Some (Inr (), tl, w')" unfolding w1 by simp
  show ?thesis by (rule that [OF r l' tr n])
qed
lemma trial_loop_immediate:
  assumes "while_not fuel (invoke MdpIsTerminal (mdp_is_terminal mdp))
             (trial_step mdp agent) w = Some (Inr u, tr, w')"
    and "hd (mdp_terminal_reports tr)"
  shows "tr = [Call (MdpIsTerminal True)] \<and> mdp_is_terminal mdp w = (Inr True, w')"
  using assms
proof (induction rule: while_not_induct)
  case (stop w tr w')
  then show ?case by simp
next
  case (pass w tc w1 tb w2 tr w')
  from pass(1) have "tc = [Call (MdpIsTerminal False)]" by simp
  with pass(4) show ?case by (simp add: mdp_projections)
qed
subsection \<open>The store model\<close>

lemma take_actions_frame:
  assumes "take_actions (stored_game live rules) acts h = Some h'"
  shows "length h' = length h \<and> (\<forall>s. s \<noteq> live \<longrightarrow> h' ! s = h ! s)"
  using assms
proof (induction acts arbitrary: h)
  case Nil
  then show ?case by simp
next
  case (Cons a acts)
  from Cons.prems obtain v where
    "move rules a (h ! live) = Inr v"
    and "take_actions (stored_game live rules) acts (h[live := v]) = Some h'"
    by (auto simp: stored_game_def split: sum.splits)
  with Cons.IH [of "h[live := v]"] show ?case by simp
qed
lemma take_steps_frame:
  assumes "take_steps (stored_mdp live rules) acts h = Some h'"
  shows "length h' = length h \<and> (\<forall>s. s \<noteq> live \<longrightarrow> h' ! s = h ! s)"
  using assms
proof (induction acts arbitrary: h)
  case Nil
  then show ?case by simp
next
  case (Cons a acts)
  from Cons.prems obtain rt v where
    "advance rules a (h ! live) = Inr (rt, v)"
    and "take_steps (stored_mdp live rules) acts (h[live := v]) = Some h'"
    by (auto simp: stored_mdp_def split: sum.splits)
  with Cons.IH [of "h[live := v]"] show ?case by simp
qed
subsection \<open>Evaluating concrete runs\<close>

lemmas run_defs = run_games_def run_game_def game_turn_def advance_by_action_def
  run_mdp_def run_trial_def trial_step_def
  bind_def invoke_def log_line_def read_def ret_def raise_def input_def subscript_def py_index_def
  stub_game_def stub_agent_def alternate_def last_player_def stub_mdp_def stub_learner_def
  enumerate_eq_zip eval_nat_numeral
lemmas store_defs = stored_game_def stored_mdp_def counting_rules_def counting_mdp_rules_def
  peeking_learner_def
subsection \<open>Episodes whose first terminal report is true\<close>

text \<open>
  A finished episode whose first terminal report is true made no pass through the loop.
\<close>

lemma first_report_true:
  "(run_game fuel game agents t w = Some (Inr u, tr, w') \<and> hd (terminal_reports tr) \<longrightarrow>
      searches tr = [] \<and> transitions tr = [] \<and> (\<forall>i. notifications i tr = []) \<and>
      terminal_reports tr = [True] \<and> (\<exists>win. winners_read tr = [win] \<and> winners_logged tr = [win])) \<and>
   (run_trial fuel' mdp agent v = Some (Inr n, tm, v') \<and> hd (mdp_terminal_reports tm) \<longrightarrow>
      tm = [Call MdpReset, Call (MdpIsTerminal True)] \<and> n = timesteps mdp v' \<and>
      (\<exists>v0. mdp_reset mdp v = (Inr (), v0) \<and> mdp_is_terminal mdp v0 = (Inr True, v')))"
proof (rule conjI; rule impI; elim conjE)
  assume run: "run_game fuel game agents t w = Some (Inr u, tr, w')"
    and first: "hd (terminal_reports tr)"
  note s = run_game_summary [OF run]
  from s have rep: "terminal_reports tr = replicate (length (transitions tr)) False @ [True]"
    by blast
  have none: "transitions tr = []"
  proof (cases "transitions tr")
    case Nil
    then show ?thesis .
  next
    case (Cons a as)
    with rep first show ?thesis by simp
  qed
  from s none have se: "searches tr = []" by simp
  have nt: "notifications i tr = []" for i
  proof (cases "i < length agents")
    case True
    with s none have "map fst (notifications i tr) = []" by simp
    then show ?thesis by simp
  next
    case False
    with s show ?thesis by simp
  qed
  from rep none have "terminal_reports tr = [True]" by simp
  with s se none nt
  show "searches tr = [] \<and> transitions tr = [] \<and> (\<forall>i. notifications i tr = []) \<and>
      terminal_reports tr = [True] \<and> (\<exists>win. winners_read tr = [win] \<and> winners_logged tr = [win])"
    by blast
next
  assume run: "run_trial fuel' mdp agent v = Some (Inr n, tm, v')"
    and first: "hd (mdp_terminal_reports tm)"
  from run obtain v0 rest where r: "mdp_reset mdp v = (Inr (), v0)"
    and l: "while_not fuel' (invoke MdpIsTerminal (mdp_is_terminal mdp))
       (trial_step mdp agent) v0 = Some (Inr (), rest, v')"
    and tm: "tm = Call MdpReset # rest" and n: "n = timesteps mdp v'"
    by (rule run_trial_parts)
  from first have "hd (mdp_terminal_reports rest)" unfolding tm steps_after_reset .
  from trial_loop_immediate [OF l this] r tm n
  show "tm = [Call MdpReset, Call (MdpIsTerminal True)] \<and> n = timesteps mdp v' \<and>
      (\<exists>v0. mdp_reset mdp v = (Inr (), v0) \<and> mdp_is_terminal mdp v0 = (Inr True, v'))"
    by blast
qed

section \<open>Properties\<close>

text \<open>
  C1. With a list of agents whose length differs from the game's \<open>NUM_PLAYERS\<close>,
  \<open>run_games\<close> raises its RuntimeError at once: whatever the fuel, the number of games
  and the world, the run ends in that error with no event at all (no method of the game
  or of an agent was called, nothing was logged) and the world is untouched.
\<close>

theorem run_games_wrong_agent_count:
  "int (length agents) \<noteq> NUM_PLAYERS game \<Longrightarrow>
   run_games fuel game agents time_allowed num_games w =
     Some (Inl (RuntimeError ''Incorrect number of agents for game type.''), [], w)"
  by (simp add: run_games_def raise_def)

text \<open>One agent for the two-player stub game.\<close>

theorem run_games_wrong_agent_count_witness:
  "int (length [stub_agent 0 Suc :: (nat, nat, nat, unit) agent]) \<noteq>
     NUM_PLAYERS (stub_game alternate 3 5 :: (nat, nat, nat) game) \<and>
   run_games 0 (stub_game alternate 3 5) [stub_agent 0 Suc] () 4 7 =
     Some (Inl (RuntimeError ''Incorrect number of agents for game type.''), [], 7)"
proof -
  have h: "int (length [stub_agent 0 Suc :: (nat, nat, nat, unit) agent]) \<noteq>
     NUM_PLAYERS (stub_game alternate 3 5 :: (nat, nat, nat) game)"
    by (simp add: stub_game_def)
  from h run_games_wrong_agent_count [OF h, of 0 "()" 4 7] show ?thesis by (rule conjI)
qed
text \<open>
  C2, amended. In every episode that finishes, each agent of the list is notified of
  exactly the actions applied to the game, in order (so it gets as many \<open>take_action\<close>
  calls as there were transitions), and the action applied in a transition is the one the
  search of that transition returned. The flag an agent is given is
  \<open>agent.agent_id == current_agent_id\<close>, with the id read just before the action is
  applied. So when every agent's \<open>agent_id\<close> is its position in the list, and in every
  transition that id is the position of the agent whose search was called, the flag is
  true for the agent that searched and false for every other agent.
  The driver does not check either condition; without them the flags need not single out
  the agent that searched.
\<close>

theorem notifications_follow_transitions:
  assumes "run_game fuel game agents t w = Some (Inr u, tr, w')"
  shows "map snd (searches tr) = transitions tr \<and>
         (\<forall>i<length agents.
            map fst (notifications i tr) = transitions tr \<and>
            map snd (notifications i tr) = map (\<lambda>c. agent_id (agents ! i) = c) (acting_ids tr)) \<and>
         ((\<forall>i<length agents. agent_id (agents ! i) = int i) \<and>
          acting_ids tr = map (int \<circ> fst) (searches tr) \<longrightarrow>
            (\<forall>i<length agents.
               map snd (notifications i tr) = map (\<lambda>(p, a). p = i) (searches tr)))"
proof -
  note s = run_game_summary [OF assms]
  have "map snd (notifications i tr) = map (\<lambda>(p, a). p = i) (searches tr)"
    if ids: "\<forall>i<length agents. agent_id (agents ! i) = int i"
      and pos: "acting_ids tr = map (int \<circ> fst) (searches tr)"
      and i: "i < length agents" for i
  proof -
    have "map snd (notifications i tr) = map (\<lambda>c. agent_id (agents ! i) = c) (acting_ids tr)"
      using s i by blast
    also have "\<dots> = map (\<lambda>(p, a). p = i) (searches tr)"
      using ids i unfolding pos by (auto simp: comp_def)
    finally show ?thesis .
  qed
  then show ?thesis using s by blast
qed

text \<open>One move of the stub game by two agents whose ids are their positions.\<close>

theorem notifications_follow_transitions_witness:
  "\<exists>tr w'.
     run_game 2 (stub_game alternate 1 5) [stub_agent 0 Suc, stub_agent 1 Suc] () 7 =
       Some (Inr (), tr, w') \<and>
     agent_id ([stub_agent 0 Suc, stub_agent 1 Suc :: (nat, nat, nat, unit) agent] ! 0) = 0 \<and>
     agent_id ([stub_agent 0 Suc, stub_agent 1 Suc :: (nat, nat, nat, unit) agent] ! 1) = 1 \<and>
     acting_ids tr = map (int \<circ> fst) (searches tr) \<and>
     searches tr = [(0, 1)] \<and> transitions tr = [1] \<and>
     notifications 0 tr = [(1, True)] \<and> notifications 1 tr = [(1, False)] \<and>
     map snd (notifications 0 tr) = map (\<lambda>(p, a). p = 0) (searches tr) \<and>
     map snd (notifications 1 tr) = map (\<lambda>(p, a). p = 1) (searches tr)"
proof -
  let ?A = "[stub_agent 0 Suc, stub_agent 1 Suc] :: (nat, nat, nat, unit) agent list"
  have "\<exists>tr w'. run_game 2 (stub_game alternate 1 5) ?A () 7 = Some (Inr (), tr, w') \<and>
     acting_ids tr = map (int \<circ> fst) (searches tr) \<and>
     searches tr = [(0, 1)] \<and> transitions tr = [1] \<and>
     notifications 0 tr = [(1, True)] \<and> notifications 1 tr = [(1, False)]"
    by (simp add: run_defs game_projections)
  then obtain tr w' where run: "run_game 2 (stub_game alternate 1 5) ?A () 7 = Some (Inr (), tr, w')"
    and pos: "acting_ids tr = map (int \<circ> fst) (searches tr)"
    and ev: "searches tr = [(0, 1)]" "transitions tr = [1]"
      "notifications 0 tr = [(1, True)]" "notifications 1 tr = [(1, False)]"
    by blast
  have ids: "\<forall>i<length ?A. agent_id (?A ! i) = int i"
    by (simp add: stub_agent_def less_Suc_eq)
  have id0: "agent_id (?A ! 0) = 0" and id1: "agent_id (?A ! 1) = 1"
    by (simp_all add: stub_agent_def)
  from notifications_follow_transitions [OF run] ids pos
  have "\<forall>i<length ?A. map snd (notifications i tr) = map (\<lambda>(p, a). p = i) (searches tr)"
    by blast
  then have "map snd (notifications 0 tr) = map (\<lambda>(p, a). p = 0) (searches tr)"
    and "map snd (notifications 1 tr) = map (\<lambda>(p, a). p = 1) (searches tr)"
    by simp_all
  with run pos ev id0 id1 show ?thesis by blast
qed

text \<open>
  The claim as written fails when the ids are not the positions: with the two stub agents
  listed in the other order, the agent at position 0 is the one that searches, it is
  told the action is not its own, and the agent at position 1 is told it is.
\<close>

theorem swapped_ids_counterexample:
  "run_game 2 (stub_game alternate 1 5) [stub_agent 1 Suc, stub_agent 0 Suc] () 7 =
     Some (Inr (),
       [Call GameReset, Call (AgentReset 0), Log DEBUG (MsgAgentStart 1 ''agent''),
        Call (AgentReset 1), Log DEBUG (MsgAgentStart 0 ''agent''),
        Call (GameIsTerminal False), Call (GameCopy 0), Call (AgentSearch 0 0 () 1),
        Log DEBUG (MsgAgent 1 ''agent''), Log DEBUG (MsgAction 0 1), Call (GameTakeAction 1),
        Call (AgentTakeAction 0 1 False), Call (AgentTakeAction 1 1 True),
        Call (GameIsTerminal True), Call (GameGetWinningId 5), Log INFO (MsgWinner 5),
        Log DEBUG (MsgFinalState ''game'')], 1) \<and>
   searches
       [Call GameReset, Call (AgentReset 0), Log DEBUG (MsgAgentStart 1 ''agent''),
        Call (AgentReset 1), Log DEBUG (MsgAgentStart 0 ''agent''),
        Call (GameIsTerminal False), Call (GameCopy 0), Call (AgentSearch 0 0 () 1),
        Log DEBUG (MsgAgent 1 ''agent''), Log DEBUG (MsgAction 0 1), Call (GameTakeAction 1),
        Call (AgentTakeAction 0 1 False), Call (AgentTakeAction 1 1 True),
        Call (GameIsTerminal True), Call (GameGetWinningId 5), Log INFO (MsgWinner 5),
        Log DEBUG (MsgFinalState ''game'') :: (nat, nat, unit) game_event] = [(0, 1)] \<and>
   notifications 0
       [Call GameReset, Call (AgentReset 0), Log DEBUG (MsgAgentStart 1 ''agent''),
        Call (AgentReset 1), Log DEBUG (MsgAgentStart 0 ''agent''),
        Call (GameIsTerminal False), Call (GameCopy 0), Call (AgentSearch 0 0 () 1),
        Log DEBUG (MsgAgent 1 ''agent''), Log DEBUG (MsgAction 0 1), Call (GameTakeAction 1),
        Call (AgentTakeAction 0 1 False), Call (AgentTakeAction 1 1 True),
        Call (GameIsTerminal True), Call (GameGetWinningId 5), Log INFO (MsgWinner 5),
        Log DEBUG (MsgFinalState ''game'') :: (nat, nat, unit) game_event] = [(1, False)] \<and>
   notifications 1
       [Call GameReset, Call (AgentReset 0), Log DEBUG (MsgAgentStart 1 ''agent''),
        Call (AgentReset 1), Log DEBUG (MsgAgentStart 0 ''agent''),
        Call (GameIsTerminal False), Call (GameCopy 0), Call (AgentSearch 0 0 () 1),
        Log DEBUG (MsgAgent 1 ''agent''), Log DEBUG (MsgAction 0 1), Call (GameTakeAction 1),
        Call (AgentTakeAction 0 1 False), Call (AgentTakeAction 1 1 True),
        Call (GameIsTerminal True), Call (GameGetWinningId 5), Log INFO (MsgWinner 5),
        Log DEBUG (MsgFinalState ''game'') :: (nat, nat, unit) game_event] = [(1, True)]"
  by (simp add: run_defs game_projections)

text \<open>
  C3. For an MDP that keeps \<open>timesteps\<close> as the spec describes (\<open>counts_timesteps\<close>),
  the value a finished trial returns, \<open>mdp.timesteps\<close> read after the loop, is the
  number of \<open>step\<close> calls of the trial. Whatever the MDP, \<open>update\<close> is called once for
  every \<open>step\<close> call, in the same order, with the action that step was given and the
  reward and terminal flag it returned.
\<close>

theorem timesteps_count_steps:
  assumes "counts_timesteps mdp agent"
    and "run_trial fuel mdp agent w = Some (Inr n, tr, w')"
  shows "n = int (length (steps tr)) \<and> length (updates tr) = length (steps tr) \<and>
         map (\<lambda>(s, r, a, t). (a, r, t)) (updates tr) = steps tr"
proof -
  from assms(2) obtain w0 tl where r: "mdp_reset mdp w = (Inr (), w0)"
    and l: "while_not fuel (invoke MdpIsTerminal (mdp_is_terminal mdp))
       (trial_step mdp agent) w0 = Some (Inr (), tl, w')"
    and tr: "tr = Call MdpReset # tl" and n: "n = timesteps mdp w'"
    by (rule run_trial_parts)
  have "timesteps mdp w0 = 0" by (rule counts_timesteps_reset [OF assms(1) r])
  with trial_loop_counts [OF l assms(1)] have "n = int (length (steps tl))"
    unfolding n by simp
  moreover from trial_loop_shape [OF l] obtain its where
    "tl = concat (map iteration_events its) @ [Call (MdpIsTerminal True)]" by blast
  then have "map (\<lambda>(s, r, a, t). (a, r, t)) (updates tl) = steps tl"
    by (simp add: shape_steps shape_updates split_def)
  moreover from this have "length (updates tl) = length (steps tl)"
    by (metis length_map)
  ultimately show ?thesis unfolding tr steps_after_reset by simp
qed
text \<open>A trial of the stub MDP with a trajectory of two steps.\<close>

theorem timesteps_count_steps_witness:
  "\<exists>tr w'.
     counts_timesteps (stub_mdp 2 1) (stub_learner place ()) \<and>
     run_trial 3 (stub_mdp 2 1) (stub_learner place ())
       \<lparr>place = 9, elapsed = 4, reward_sum = 2\<rparr> = Some (Inr 2, tr, w') \<and>
     2 = int (length (steps tr)) \<and> length (updates tr) = length (steps tr)"
proof -
  have ct: "counts_timesteps (stub_mdp 2 1) (stub_learner place ())"
    by (simp add: counts_timesteps_def stub_mdp_def stub_learner_def)
  have "\<exists>tr w'. run_trial 3 (stub_mdp 2 1) (stub_learner place ())
       \<lparr>place = 9, elapsed = 4, reward_sum = 2\<rparr> = Some (Inr 2, tr, w')"
    by (simp add: run_defs)
  then obtain tr w' where run: "run_trial 3 (stub_mdp 2 1) (stub_learner place ())
       \<lparr>place = 9, elapsed = 4, reward_sum = 2\<rparr> = Some (Inr 2, tr, w')"
    by blast
  from timesteps_count_steps [OF ct run] ct run show ?thesis by blast
qed
text \<open>
  C4. In a finished trial every \<open>update\<close> comes right after the \<open>step\<close> whose action,
  reward and flag it is given, and that step comes right after the \<open>copy\<close> whose result
  the update is given as \<open>prev_state\<close>. In terms of the world: in every pass of the loop
  that returns, \<open>prev_state\<close> is what \<open>copy\<close> returned on the world \<open>get_next_action\<close> left,
  the step is applied to the world that \<open>copy\<close> left, and the update runs on the world
  the step left.
\<close>

theorem prev_state_taken_before_step:
  "(run_trial fuel mdp agent w = Some (Inr n, tr, w') \<longrightarrow> prev_state_precedes_step tr) \<and>
   (trial_step mdp agent v = Some (Inr u, tb, v') \<longrightarrow>
      (\<exists>s1 v1 a v2 s2 v3 r t v4.
         mdp_copy mdp v = (Inr s1, v1) \<and> get_next_action agent s1 v1 = (Inr a, v2) \<and>
         mdp_copy mdp v2 = (Inr s2, v3) \<and> step mdp a v3 = (Inr (r, t), v4) \<and>
         update agent s2 r a t v4 = (Inr (), v') \<and>
         tb = [Call (MdpCopy s1), Call (GetNextAction s1 a), Call (MdpCopy s2),
               Call (Step a r t), Call (Update s2 r a t)]))"
proof (intro conjI impI)
  assume "run_trial fuel mdp agent w = Some (Inr n, tr, w')"
  then obtain w0 tl where
     l: "while_not fuel (invoke MdpIsTerminal (mdp_is_terminal mdp))
       (trial_step mdp agent) w0 = Some (Inr (), tl, w')"
    and tr: "tr = Call MdpReset # tl"
    by (rule run_trial_parts)
  from trial_loop_shape [OF l] obtain its where
    tl: "tl = concat (map iteration_events its) @ [Call (MdpIsTerminal True)]" by blast
  show "prev_state_precedes_step tr"
    unfolding prev_state_precedes_step_def tr tl
    by (simp add: shape_in_order update_in_order_def)
next
  assume "trial_step mdp agent v = Some (Inr u, tb, v')"
  then obtain s1 v1 a v2 s2 v3 r t v4 where
    "mdp_copy mdp v = (Inr s1, v1)" "get_next_action agent s1 v1 = (Inr a, v2)"
    "mdp_copy mdp v2 = (Inr s2, v3)" "step mdp a v3 = (Inr (r, t), v4)"
    "update agent s2 r a t v4 = (Inr (), v')"
    "tb = [Call (MdpCopy s1), Call (GetNextAction s1 a), Call (MdpCopy s2),
           Call (Step a r t), Call (Update s2 r a t)]"
    by (rule trial_step_chain)
  then show "\<exists>s1 v1 a v2 s2 v3 r t v4.
         mdp_copy mdp v = (Inr s1, v1) \<and> get_next_action agent s1 v1 = (Inr a, v2) \<and>
         mdp_copy mdp v2 = (Inr s2, v3) \<and> step mdp a v3 = (Inr (r, t), v4) \<and>
         update agent s2 r a t v4 = (Inr (), v') \<and>
         tb = [Call (MdpCopy s1), Call (GetNextAction s1 a), Call (MdpCopy s2),
               Call (Step a r t), Call (Update s2 r a t)]"
    by (intro exI conjI)
qed
text \<open>A trial of the stub MDP, and one pass of the loop from its initial state.\<close>

theorem prev_state_taken_before_step_witness:
  "\<exists>tr w' tb v'.
     run_trial 3 (stub_mdp 2 1) (stub_learner place ())
       \<lparr>place = 9, elapsed = 4, reward_sum = 2\<rparr> = Some (Inr 2, tr, w') \<and>
     prev_state_precedes_step tr \<and>
     trial_step (stub_mdp 2 1) (stub_learner place ())
       \<lparr>place = 0, elapsed = 0, reward_sum = 0\<rparr> = Some (Inr (), tb, v') \<and>
     tb = [Call (MdpCopy \<lparr>place = 0, elapsed = 0, reward_sum = 0\<rparr>),
           Call (GetNextAction \<lparr>place = 0, elapsed = 0, reward_sum = 0\<rparr> 0),
           Call (MdpCopy \<lparr>place = 0, elapsed = 0, reward_sum = 0\<rparr>),
           Call (Step 0 1 False),
           Call (Update \<lparr>place = 0, elapsed = 0, reward_sum = 0\<rparr> 1 0 False)]"
proof -
  let ?M = "stub_mdp 2 1 :: (stub_state, stub_state, nat, real) mdp"
  let ?L = "stub_learner place () :: (stub_state, stub_state, nat, real, unit) learner"
  let ?w0 = "\<lparr>place = 9, elapsed = 4, reward_sum = 2\<rparr>"
  let ?v0 = "\<lparr>place = 0, elapsed = 0, reward_sum = 0\<rparr>"
  have "\<exists>tr w'. run_trial 3 ?M ?L ?w0 = Some (Inr 2, tr, w')"
    by (simp add: run_defs)
  then obtain tr w' where run: "run_trial 3 ?M ?L ?w0 = Some (Inr 2, tr, w')" by blast
  have "\<exists>tb v'. trial_step ?M ?L ?v0 = Some (Inr (), tb, v') \<and>
     tb = [Call (MdpCopy ?v0), Call (GetNextAction ?v0 0), Call (MdpCopy ?v0),
           Call (Step 0 1 False), Call (Update ?v0 1 0 False)]"
    by (simp add: run_defs)
  then obtain tb v' where one: "trial_step ?M ?L ?v0 = Some (Inr (), tb, v')"
    and tb: "tb = [Call (MdpCopy ?v0), Call (GetNextAction ?v0 0), Call (MdpCopy ?v0),
           Call (Step 0 1 False), Call (Update ?v0 1 0 False)]"
    by blast
  note t = prev_state_taken_before_step [where fuel = 3 and mdp = ?M and agent = ?L
      and w = ?w0 and n = 2 and tr = tr and w' = w' and v = ?v0 and u = "()" and tb = tb
      and v' = v']
  from t run have "prev_state_precedes_step tr" by blast
  with run one tb show ?thesis by blast
qed
text \<open>
  C5. In the store model of \<open>copy\<close> (a deep copy), the snapshot returned is a new object,
  not the live environment, holding the live state of the moment of the call; after any
  sequence of \<open>take_action\<close> calls on the live game, or of \<open>step\<close> calls on the live MDP,
  the snapshot is still there and still holds that state.
\<close>

theorem snapshot_isolation:
  assumes "live < length h"
  shows "(game_copy (stored_game live rules) h = (Inr s, h1) \<and>
          take_actions (stored_game live rules) acts h1 = Some h2 \<longrightarrow>
            s \<noteq> live \<and> s < length h2 \<and> h1 ! s = h ! live \<and> h2 ! s = h ! live) \<and>
         (mdp_copy (stored_mdp live mrules) h = (Inr s', h1') \<and>
          take_steps (stored_mdp live mrules) acts' h1' = Some h2' \<longrightarrow>
            s' \<noteq> live \<and> s' < length h2' \<and> h1' ! s' = h ! live \<and> h2' ! s' = h ! live)"
proof (rule conjI; rule impI; elim conjE)
  assume c: "game_copy (stored_game live rules) h = (Inr s, h1)"
    and t: "take_actions (stored_game live rules) acts h1 = Some h2"
  from c have s: "s = length h" and h1: "h1 = h @ [h ! live]"
    by (simp_all add: stored_game_def)
  from assms s have ne: "s \<noteq> live" by simp
  from take_actions_frame [OF t] ne have "length h2 = length h1" "h2 ! s = h1 ! s" by simp_all
  with s h1 ne
  show "s \<noteq> live \<and> s < length h2 \<and> h1 ! s = h ! live \<and> h2 ! s = h ! live" by simp
next
  assume c: "mdp_copy (stored_mdp live mrules) h = (Inr s', h1')"
    and t: "take_steps (stored_mdp live mrules) acts' h1' = Some h2'"
  from c have s: "s' = length h" and h1: "h1' = h @ [h ! live]"
    by (simp_all add: stored_mdp_def)
  from assms s have ne: "s' \<noteq> live" by simp
  from take_steps_frame [OF t] ne have "length h2' = length h1'" "h2' ! s' = h1' ! s'" by simp_all
  with s h1 ne
  show "s' \<noteq> live \<and> s' < length h2' \<and> h1' ! s' = h ! live \<and> h2' ! s' = h ! live" by simp
qed
text \<open>A store holding one live counter, copied and then advanced twice.\<close>

theorem snapshot_isolation_witness:
  "(0::nat) < length [0::nat] \<and>
   game_copy (stored_game 0 (counting_rules 3 :: (nat, unit) game_rules)) [0] = (Inr 1, [0, 0]) \<and>
   take_actions (stored_game 0 (counting_rules 3 :: (nat, unit) game_rules)) [(), ()] [0, 0] =
     Some [2, 0] \<and>
   [2, 0::nat] ! 1 = [0] ! 0 \<and>
   mdp_copy (stored_mdp 0 (counting_mdp_rules 3 :: (nat, unit, real) mdp_rules)) [0] =
     (Inr 1, [0, 0]) \<and>
   take_steps (stored_mdp 0 (counting_mdp_rules 3 :: (nat, unit, real) mdp_rules)) [(), ()] [0, 0] =
     Some [2, 0]"
proof -
  have l: "(0::nat) < length [0::nat]" by simp
  have c: "game_copy (stored_game 0 (counting_rules 3 :: (nat, unit) game_rules)) [0] =
      (Inr 1, [0, 0])"
    by (simp add: store_defs)
  have t: "take_actions (stored_game 0 (counting_rules 3 :: (nat, unit) game_rules)) [(), ()] [0, 0] =
     Some [2, 0]"
    by (simp add: store_defs eval_nat_numeral)
  have c': "mdp_copy (stored_mdp 0 (counting_mdp_rules 3 :: (nat, unit, real) mdp_rules)) [0] =
     (Inr 1, [0, 0])"
    by (simp add: store_defs)
  have t': "take_steps (stored_mdp 0 (counting_mdp_rules 3 :: (nat, unit, real) mdp_rules)) [(), ()] [0, 0] =
     Some [2, 0]"
    by (simp add: store_defs eval_nat_numeral)
  note s = snapshot_isolation [OF l, where rules = "counting_rules 3" and s = 1
      and ?h1.0 = "[0, 0]" and acts = "[(), ()]" and ?h2.0 = "[2, 0]"
      and mrules = "counting_mdp_rules 3" and s' = 1 and h1' = "[0, 0]" and acts' = "[(), ()]"
      and h2' = "[2, 0]"]
  from s c t have "[2, 0::nat] ! 1 = [0] ! 0" by blast
  with l c t c' t' show ?thesis by blast
qed
text \<open>
  C6. The stub game for two players that is over after three moves, played once by two
  stub agents whose ids are their positions, with fuel for four tests of the loop
  condition or more: the run returns; three actions are applied, each the answer of the
  agent whose turn it is; each agent gets three notifications, flagged own for the moves
  it made itself; the winner is read once and logged once, and is the game's fixed one.
\<close>

theorem three_move_game:
  "\<exists>tr. run_games (4 + fuel) (stub_game alternate 3 win)
           [stub_agent 0 pick0, stub_agent 1 pick1] time_allowed 1 w = Some (Inr (), tr, 3) \<and>
        transitions tr = [pick0 0, pick1 1, pick0 2] \<and>
        searches tr = [(0, pick0 0), (1, pick1 1), (0, pick0 2)] \<and>
        notifications 0 tr = [(pick0 0, True), (pick1 1, False), (pick0 2, True)] \<and>
        notifications 1 tr = [(pick0 0, False), (pick1 1, True), (pick0 2, False)] \<and>
        terminal_reports tr = [False, False, False, True] \<and>
        winners_read tr = [win] \<and> winners_logged tr = [win]"
  by (simp add: run_defs game_projections)
text \<open>
  C7. One trial of the stub MDP with a trajectory of five steps and reward 1 at each step,
  with fuel for six tests of the loop condition or more: the trial returns 5, five steps
  are taken, each with reward 1 and the last one terminal, and \<open>run_mdp\<close> logs a total
  reward of 5 and 5 timesteps. Rewards are real numbers here; the sums involved are exact
  in floating point as well.
\<close>

theorem five_step_trial:
  "\<exists>tr w' tr'.
     run_trial (6 + fuel) (stub_mdp 5 1) (stub_learner pick wts) w = Some (Inr 5, tr, w') \<and>
     steps tr = [(pick \<lparr>place = 0, elapsed = 0, reward_sum = 0\<rparr>, 1, False),
                 (pick \<lparr>place = 1, elapsed = 1, reward_sum = 1\<rparr>, 1, False),
                 (pick \<lparr>place = 2, elapsed = 2, reward_sum = 2\<rparr>, 1, False),
                 (pick \<lparr>place = 3, elapsed = 3, reward_sum = 3\<rparr>, 1, False),
                 (pick \<lparr>place = 4, elapsed = 4, reward_sum = 4\<rparr>, 1, True)] \<and>
     timesteps (stub_mdp 5 1) w' = 5 \<and> total_reward (stub_mdp 5 1) w' = 5 \<and>
     run_mdp (6 + fuel) (stub_mdp 5 1) (stub_learner pick wts) 1 w = Some (Inr (), tr', w') \<and>
     results_logged tr' = [(5, 5)]"
  by (simp add: run_defs mdp_projections)
text \<open>
  C8, amended. In every pass of the game loop that returns, the agent whose search is
  called is \<open>agents[game.current_agent_id]\<close> (Python indexing, so a position \<open>p\<close> in the
  list), and the flag passed to each agent's \<open>take_action\<close> is
  \<open>agent.agent_id == c\<close>, where \<open>c\<close> is \<open>game.current_agent_id\<close> read after the search
  and before the action is applied. When \<open>c\<close> is the position \<open>p\<close> of the agent that
  searched, that agent's flag is true if and only if its own \<open>agent_id\<close> is its position;
  and if every agent's \<open>agent_id\<close> is its position, the flag is true for the agent that
  searched and false for every other agent.
\<close>

theorem own_flag_by_agent_id:
  assumes "game_turn game agents t w = Some (Inr u, tr, w')"
  shows "\<exists>p s a w1 w2 c.
           py_index agents (current_agent_id game w) = Inr p \<and> p < length agents \<and>
           game_copy game w = (Inr s, w1) \<and> search (agents ! p) s t w1 = (Inr a, w2) \<and>
           c = current_agent_id game w2 \<and>
           searches tr = [(p, a)] \<and> transitions tr = [a] \<and> acting_ids tr = [c] \<and>
           (\<forall>i<length agents. notifications i tr = [(a, agent_id (agents ! i) = c)]) \<and>
           (c = int p \<longrightarrow>
              (notifications p tr = [(a, True)] \<longleftrightarrow> agent_id (agents ! p) = int p) \<and>
              ((\<forall>i<length agents. agent_id (agents ! i) = int i) \<longrightarrow>
                 (\<forall>i<length agents. notifications i tr = [(a, i = p)])))"
proof -
  from game_turn_trace [OF assms] obtain p s a w1 w2 where
    p: "py_index agents (current_agent_id game w) = Inr p"
    and c: "game_copy game w = (Inr s, w1)" "search (agents ! p) s t w1 = (Inr a, w2)"
    and tr: "tr = [Call (GameCopy s), Call (AgentSearch p s t a),
                 Log DEBUG (MsgAgent (agent_id (agents ! p)) (agent_str (agents ! p) w2)),
                 Log DEBUG (MsgAction (current_agent_id game w2) a), Call (GameTakeAction a)] @
                map (notice a (current_agent_id game w2)) (enumerate 0 agents)"
    by blast
  let ?c = "current_agent_id game w2"
  let ?pre = "[Call (GameCopy s), Call (AgentSearch p s t a),
                 Log DEBUG (MsgAgent (agent_id (agents ! p)) (agent_str (agents ! p) w2)),
                 Log DEBUG (MsgAction ?c a), Call (GameTakeAction a)]"
  have pre: "transitions ?pre = [a]" "searches ?pre = [(p, a)]" "acting_ids ?pre = [?c]"
    "\<And>i. notifications i ?pre = []"
    by (simp_all add: game_projections)
  have proj: "transitions tr = [a]" "searches tr = [(p, a)]" "acting_ids tr = [?c]"
    unfolding tr game_projections_append pre others_enumerate by simp_all
  have nt: "notifications i tr = [(a, agent_id (agents ! i) = ?c)]" if "i < length agents" for i
    unfolding tr game_projections_append pre notifications_enumerate using that by simp
  from py_index_Inr [OF p] have pl: "p < length agents" by simp
  have "notifications p tr = [(a, True)] \<longleftrightarrow> agent_id (agents ! p) = int p" if "?c = int p"
    using nt [OF pl] that by simp
  moreover have "\<forall>i<length agents. notifications i tr = [(a, i = p)]"
    if "?c = int p" "\<forall>i<length agents. agent_id (agents ! i) = int i"
    using nt that by simp
  ultimately show ?thesis using p pl c proj nt by blast
qed
text \<open>One pass of the loop of the stub game.\<close>

theorem own_flag_by_agent_id_witness:
  "\<exists>tr w' p a c.
     game_turn (stub_game alternate 1 5) [stub_agent 0 Suc, stub_agent 1 Suc] () 0 =
       Some (Inr (), tr, w') \<and>
     searches tr = [(p, a)] \<and> transitions tr = [a] \<and> acting_ids tr = [c]"
proof -
  have "\<exists>tr w'. game_turn (stub_game alternate 1 5)
      [stub_agent 0 Suc, stub_agent 1 Suc] () 0 = Some (Inr (), tr, w')"
    by (simp add: run_defs)
  then obtain tr w' where run: "game_turn (stub_game alternate 1 5)
      [stub_agent 0 Suc, stub_agent 1 Suc] () 0 = Some (Inr (), tr, w')"
    by blast
  from own_flag_by_agent_id [OF run] run show ?thesis by blast
qed
text \<open>
  The claim as written fails in both directions. With every \<open>agent_id\<close> equal to its
  position and a game whose acting id is \<open>-1\<close>, the last agent of the list searches and
  is told the action is not its own. And with ids 0 and 7 the agent at position 0
  searches and is told the action is its own, though not every id is its position.
\<close>

theorem own_flag_counterexample:
  "game_turn (stub_game last_player 1 5) [stub_agent 0 Suc, stub_agent 1 Suc] () 0 =
     Some (Inr (),
       [Call (GameCopy 0), Call (AgentSearch 1 0 () 1), Log DEBUG (MsgAgent 1 ''agent''),
        Log DEBUG (MsgAction (- 1) 1), Call (GameTakeAction 1),
        Call (AgentTakeAction 0 1 False), Call (AgentTakeAction 1 1 False)], 1) \<and>
   agent_id ([stub_agent 0 Suc, stub_agent 1 Suc :: (nat, nat, nat, unit) agent] ! 0) = 0 \<and>
   agent_id ([stub_agent 0 Suc, stub_agent 1 Suc :: (nat, nat, nat, unit) agent] ! 1) = 1 \<and>
   game_turn (stub_game alternate 1 5) [stub_agent 0 Suc, stub_agent 7 Suc] () 0 =
     Some (Inr (),
       [Call (GameCopy 0), Call (AgentSearch 0 0 () 1), Log DEBUG (MsgAgent 0 ''agent''),
        Log DEBUG (MsgAction 0 1), Call (GameTakeAction 1),
        Call (AgentTakeAction 0 1 True), Call (AgentTakeAction 1 1 False)], 1) \<and>
   agent_id ([stub_agent 0 Suc, stub_agent 7 Suc :: (nat, nat, nat, unit) agent] ! 1) \<noteq> 1"
  by (simp add: run_defs)
text \<open>
  C9. When \<open>is_terminal\<close> answers true right after the resets, the episode returns
  with any fuel of at least one. In game mode the events are the resets, the one
  terminal test and the call of \<open>get_winning_id\<close> (returning, then logged with the
  final state, or raising, which ends the run): no search, no \<open>take_action\<close>. In MDP
  mode the events are \<open>reset\<close> and \<open>is_terminal\<close> only, and the trial returns
  \<open>mdp.timesteps\<close> as it stands after them. Conversely every finished episode whose
  first terminal report is true has no search, transition or notification (game), or
  exactly those two events (MDP).
\<close>

theorem terminal_after_reset:
  "(game_reset game w = (Inr (), w0) \<and>
    for_each (enumerate 0 agents) (\<lambda>(i, agent).
        bind (invoke (\<lambda>_. AgentReset i) (agent_reset agent)) (\<lambda>_.
        (\<lambda>w. log_line DEBUG (MsgAgentStart (agent_id agent) (agent_str agent w)) w))) w0
      = Some (Inr (), t0, w1) \<and>
    is_terminal game w1 = (Inr True, w2) \<longrightarrow>
      run_game (Suc fuel) game agents t w =
        (case get_winning_id game w2 of
           (Inr win, w3) \<Rightarrow>
             Some (Inr (),
               Call GameReset # t0 @
               [Call (GameIsTerminal True), Call (GameGetWinningId win),
                Log INFO (MsgWinner win), Log DEBUG (MsgFinalState (game_str game w3))], w3)
         | (Inl e, w3) \<Rightarrow>
             Some (Inl e, Call GameReset # t0 @ [Call (GameIsTerminal True), Raised e], w3)) \<and>
      quiet t0) \<and>
   (mdp_reset mdp v = (Inr (), v0) \<and> mdp_is_terminal mdp v0 = (Inr True, v1) \<longrightarrow>
      run_trial (Suc fuel') mdp agent v =
        Some (Inr (timesteps mdp v1), [Call MdpReset, Call (MdpIsTerminal True)], v1)) \<and>
   (run_game k game agents t w = Some (Inr u, tr, w') \<and> hd (terminal_reports tr) \<longrightarrow>
      searches tr = [] \<and> transitions tr = [] \<and> (\<forall>i. notifications i tr = []) \<and>
      terminal_reports tr = [True] \<and> (\<exists>win. winners_read tr = [win] \<and> winners_logged tr = [win])) \<and>
   (run_trial k' mdp agent v = Some (Inr n, tm, v') \<and> hd (mdp_terminal_reports tm) \<longrightarrow>
      tm = [Call MdpReset, Call (MdpIsTerminal True)] \<and> n = timesteps mdp v' \<and>
      (\<exists>v0. mdp_reset mdp v = (Inr (), v0) \<and> mdp_is_terminal mdp v0 = (Inr True, v')))"
proof (intro conjI)
  show "game_reset game w = (Inr (), w0) \<and>
    for_each (enumerate 0 agents) (\<lambda>(i, agent).
        bind (invoke (\<lambda>_. AgentReset i) (agent_reset agent)) (\<lambda>_.
        (\<lambda>w. log_line DEBUG (MsgAgentStart (agent_id agent) (agent_str agent w)) w))) w0
      = Some (Inr (), t0, w1) \<and>
    is_terminal game w1 = (Inr True, w2) \<longrightarrow>
      run_game (Suc fuel) game agents t w =
        (case get_winning_id game w2 of
           (Inr win, w3) \<Rightarrow>
             Some (Inr (),
               Call GameReset # t0 @
               [Call (GameIsTerminal True), Call (GameGetWinningId win),
                Log INFO (MsgWinner win), Log DEBUG (MsgFinalState (game_str game w3))], w3)
         | (Inl e, w3) \<Rightarrow>
             Some (Inl e, Call GameReset # t0 @ [Call (GameIsTerminal True), Raised e], w3)) \<and>
      quiet t0"
  proof (rule impI, elim conjE, rule conjI)
    assume r: "game_reset game w = (Inr (), w0)"
      and f: "for_each (enumerate 0 agents) (\<lambda>(i, agent).
        bind (invoke (\<lambda>_. AgentReset i) (agent_reset agent)) (\<lambda>_.
        (\<lambda>w. log_line DEBUG (MsgAgentStart (agent_id agent) (agent_str agent w)) w))) w0
      = Some (Inr (), t0, w1)"
      and it: "is_terminal game w1 = (Inr True, w2)"
    show "quiet t0" by (rule agent_resets_quiet [OF f])
    show "run_game (Suc fuel) game agents t w =
        (case get_winning_id game w2 of
           (Inr win, w3) \<Rightarrow>
             Some (Inr (),
               Call GameReset # t0 @
               [Call (GameIsTerminal True), Call (GameGetWinningId win),
                Log INFO (MsgWinner win), Log DEBUG (MsgFinalState (game_str game w3))], w3)
         | (Inl e, w3) \<Rightarrow>
             Some (Inl e, Call GameReset # t0 @ [Call (GameIsTerminal True), Raised e], w3))"
      using r f it
      by (simp add: run_game_def bind_def invoke_def ret_def log_line_def
            split: prod.splits sum.splits)
  qed
next
  show "mdp_reset mdp v = (Inr (), v0) \<and> mdp_is_terminal mdp v0 = (Inr True, v1) \<longrightarrow>
      run_trial (Suc fuel') mdp agent v =
        Some (Inr (timesteps mdp v1), [Call MdpReset, Call (MdpIsTerminal True)], v1)"
    by (simp add: run_trial_def bind_def invoke_def ret_def read_def)
next
  show "run_game k game agents t w = Some (Inr u, tr, w') \<and> hd (terminal_reports tr) \<longrightarrow>
      searches tr = [] \<and> transitions tr = [] \<and> (\<forall>i. notifications i tr = []) \<and>
      terminal_reports tr = [True] \<and> (\<exists>win. winners_read tr = [win] \<and> winners_logged tr = [win])"
    using first_report_true [of k game agents t w u tr w'] by (rule conjunct1)
next
  show "run_trial k' mdp agent v = Some (Inr n, tm, v') \<and> hd (mdp_terminal_reports tm) \<longrightarrow>
      tm = [Call MdpReset, Call (MdpIsTerminal True)] \<and> n = timesteps mdp v' \<and>
      (\<exists>v0. mdp_reset mdp v = (Inr (), v0) \<and> mdp_is_terminal mdp v0 = (Inr True, v'))"
    using first_report_true [where fuel' = k' and mdp = mdp and agent = agent and v = v
        and n = n and tm = tm and v' = v'] by (rule conjunct2)
qed

text \<open>The stub game with no move to make and the stub MDP with an empty trajectory.\<close>

theorem terminal_after_reset_witness:
  "game_reset (stub_game alternate 0 5 :: (nat, nat, nat) game) 7 = (Inr (), 0) \<and>
   for_each (enumerate 0 [stub_agent 0 Suc, stub_agent 1 Suc :: (nat, nat, nat, unit) agent])
     (\<lambda>(i, agent).
        bind (invoke (\<lambda>_. AgentReset i) (agent_reset agent)) (\<lambda>_.
        (\<lambda>w. log_line DEBUG (MsgAgentStart (agent_id agent) (agent_str agent w)) w))) 0
     = Some (Inr (),
         [Call (AgentReset 0), Log DEBUG (MsgAgentStart 0 ''agent''),
          Call (AgentReset 1), Log DEBUG (MsgAgentStart 1 ''agent'') :: (nat, nat, unit) game_event],
         0) \<and>
   is_terminal (stub_game alternate 0 5 :: (nat, nat, nat) game) 0 = (Inr True, 0) \<and>
   run_game (Suc 0) (stub_game alternate 0 5) [stub_agent 0 Suc, stub_agent 1 Suc] () 7 =
     Some (Inr (),
       [Call GameReset, Call (AgentReset 0), Log DEBUG (MsgAgentStart 0 ''agent''),
        Call (AgentReset 1), Log DEBUG (MsgAgentStart 1 ''agent''),
        Call (GameIsTerminal True), Call (GameGetWinningId 5), Log INFO (MsgWinner 5),
        Log DEBUG (MsgFinalState ''game'') :: (nat, nat, unit) game_event], 0) \<and>
   hd (terminal_reports
       [Call GameReset, Call (AgentReset 0), Log DEBUG (MsgAgentStart 0 ''agent''),
        Call (AgentReset 1), Log DEBUG (MsgAgentStart 1 ''agent''),
        Call (GameIsTerminal True), Call (GameGetWinningId 5), Log INFO (MsgWinner 5),
        Log DEBUG (MsgFinalState ''game'') :: (nat, nat, unit) game_event]) \<and>
   searches
       [Call GameReset, Call (AgentReset 0), Log DEBUG (MsgAgentStart 0 ''agent''),
        Call (AgentReset 1), Log DEBUG (MsgAgentStart 1 ''agent''),
        Call (GameIsTerminal True), Call (GameGetWinningId 5), Log INFO (MsgWinner 5),
        Log DEBUG (MsgFinalState ''game'') :: (nat, nat, unit) game_event] = [] \<and>
   mdp_reset (stub_mdp 0 1 :: (stub_state, stub_state, nat, real) mdp)
     \<lparr>place = 9, elapsed = 4, reward_sum = 2\<rparr> =
     (Inr (), \<lparr>place = 0, elapsed = 0, reward_sum = 0\<rparr>) \<and>
   mdp_is_terminal (stub_mdp 0 1 :: (stub_state, stub_state, nat, real) mdp)
     \<lparr>place = 0, elapsed = 0, reward_sum = 0\<rparr> =
     (Inr True, \<lparr>place = 0, elapsed = 0, reward_sum = 0\<rparr>) \<and>
   run_trial (Suc 0) (stub_mdp 0 1)
     (stub_learner place () :: (stub_state, stub_state, nat, real, unit) learner)
     \<lparr>place = 9, elapsed = 4, reward_sum = 2\<rparr> =
     Some (Inr 0, [Call MdpReset, Call (MdpIsTerminal True)],
           \<lparr>place = 0, elapsed = 0, reward_sum = 0\<rparr>) \<and>
   hd (mdp_terminal_reports
        [Call MdpReset, Call (MdpIsTerminal True) :: (stub_state, nat, real, unit) mdp_event])"
proof -
  let ?G = "stub_game alternate 0 5 :: (nat, nat, nat) game"
  let ?A = "[stub_agent 0 Suc, stub_agent 1 Suc] :: (nat, nat, nat, unit) agent list"
  let ?resets = "[Call (AgentReset 0), Log DEBUG (MsgAgentStart 0 ''agent''),
          Call (AgentReset 1), Log DEBUG (MsgAgentStart 1 ''agent'')] :: (nat, nat, unit) game_event list"
  let ?tr = "[Call GameReset, Call (AgentReset 0), Log DEBUG (MsgAgentStart 0 ''agent''),
        Call (AgentReset 1), Log DEBUG (MsgAgentStart 1 ''agent''),
        Call (GameIsTerminal True), Call (GameGetWinningId 5), Log INFO (MsgWinner 5),
        Log DEBUG (MsgFinalState ''game'')] :: (nat, nat, unit) game_event list"
  let ?M = "stub_mdp 0 1 :: (stub_state, stub_state, nat, real) mdp"
  let ?L = "stub_learner place () :: (stub_state, stub_state, nat, real, unit) learner"
  let ?start = "\<lparr>place = 9, elapsed = 4, reward_sum = 2\<rparr>"
  let ?zero = "\<lparr>place = 0, elapsed = 0, reward_sum = 0\<rparr>"
  let ?tm = "[Call MdpReset, Call (MdpIsTerminal True)] :: (stub_state, nat, real, unit) mdp_event list"
  have g1: "game_reset ?G 7 = (Inr (), 0)" by (simp add: stub_game_def)
  have g2: "for_each (enumerate 0 ?A) (\<lambda>(i, agent).
        bind (invoke (\<lambda>_. AgentReset i) (agent_reset agent)) (\<lambda>_.
        (\<lambda>w. log_line DEBUG (MsgAgentStart (agent_id agent) (agent_str agent w)) w))) 0
     = Some (Inr (), ?resets, 0)"
    by (simp add: run_defs)
  have g3: "is_terminal ?G 0 = (Inr True, 0)" by (simp add: stub_game_def)
  have m1: "mdp_reset ?M ?start = (Inr (), ?zero)" by (simp add: stub_mdp_def)
  have m2: "mdp_is_terminal ?M ?zero = (Inr True, ?zero)" by (simp add: stub_mdp_def)
  note t = terminal_after_reset [where game = ?G and w = 7 and ?w0.0 = 0 and agents = ?A
      and ?t0.0 = ?resets and ?w1.0 = 0 and ?w2.0 = 0 and fuel = 0 and t = "()"
      and mdp = ?M and v = ?start and ?v0.0 = ?zero and ?v1.0 = ?zero and fuel' = 0 and agent = ?L
      and k = "Suc 0" and u = "()" and tr = ?tr and w' = 0
      and k' = "Suc 0" and n = 0 and tm = ?tm and v' = ?zero]
  from t g1 g2 g3 have "run_game (Suc 0) ?G ?A () 7 =
        (case get_winning_id ?G 0 of
           (Inr win, w3) \<Rightarrow>
             Some (Inr (),
               Call GameReset # ?resets @
               [Call (GameIsTerminal True), Call (GameGetWinningId win),
                Log INFO (MsgWinner win), Log DEBUG (MsgFinalState (game_str ?G w3))], w3)
         | (Inl e, w3) \<Rightarrow>
             Some (Inl e, Call GameReset # ?resets @ [Call (GameIsTerminal True), Raised e], w3))"
    by blast
  then have run: "run_game (Suc 0) ?G ?A () 7 = Some (Inr (), ?tr, 0)"
    by (simp add: stub_game_def)
  from t m1 m2 have "run_trial (Suc 0) ?M ?L ?start = Some (Inr (timesteps ?M ?zero), ?tm, ?zero)"
    by blast
  then have trial: "run_trial (Suc 0) ?M ?L ?start = Some (Inr 0, ?tm, ?zero)"
    by (simp add: stub_mdp_def)
  have gh: "hd (terminal_reports ?tr)" by (simp add: game_projections)
  have mh: "hd (mdp_terminal_reports ?tm)" by (simp add: mdp_projections)
  from t run gh have se: "searches ?tr = []" by blast
  from g1 g2 g3 run gh se m1 m2 trial mh show ?thesis by (intro conjI)
qed

text \<open>
  C10. The events of a finished trial are the reset, then for every pass of the loop a
  terminal test, a \<open>copy\<close>, \<open>get_next_action\<close> on that copy, a second \<open>copy\<close>, the
  \<open>step\<close> and the \<open>update\<close> on the second copy, then the last terminal test: two
  copies for every step. In the store model of \<open>copy\<close>, with a learner that frees no
  object, the two snapshots of a pass are two new objects, different from each other and
  from the live MDP; when \<open>update\<close> is called the second one still holds the live state
  of just before the step, and the live MDP holds the state after it.
\<close>

theorem two_copies_per_iteration:
  "(run_trial fuel mdp agent w = Some (Inr n, tr, w') \<longrightarrow>
      (\<exists>its. tr = Call MdpReset # concat (map iteration_events its) @ [Call (MdpIsTerminal True)] \<and>
             length (copies tr) = 2 * length (steps tr))) \<and>
   (live < length h \<and>
    (\<forall>s g a g'. get_next_action learner s g = (Inr a, g') \<longrightarrow> length g \<le> length g') \<and>
    trial_step (stored_mdp live rules) learner h = Some (Inr u, tb, h') \<longrightarrow>
      (\<exists>a g r t v.
         get_next_action learner (length h) (h @ [h ! live]) = (Inr a, g) \<and>
         advance rules a (g ! live) = Inr ((r, t), v) \<and>
         update learner (length g) r a t ((g @ [g ! live])[live := v]) = (Inr (), h') \<and>
         tb = [Call (MdpCopy (length h)), Call (GetNextAction (length h) a),
               Call (MdpCopy (length g)), Call (Step a r t), Call (Update (length g) r a t)] \<and>
         length h \<noteq> live \<and> length g \<noteq> live \<and> length h \<noteq> length g \<and>
         ((g @ [g ! live])[live := v]) ! length g = g ! live \<and>
         ((g @ [g ! live])[live := v]) ! live = v))"
proof (rule conjI; rule impI)
  assume "run_trial fuel mdp agent w = Some (Inr n, tr, w')"
  then obtain w0 rest where
     l: "while_not fuel (invoke MdpIsTerminal (mdp_is_terminal mdp))
       (trial_step mdp agent) w0 = Some (Inr (), rest, w')"
    and tr: "tr = Call MdpReset # rest"
    by (rule run_trial_parts)
  from trial_loop_shape [OF l] obtain its where
    rest: "rest = concat (map iteration_events its) @ [Call (MdpIsTerminal True)]" by blast
  have "length (concat (map (\<lambda>(s1, a, s2, r, t). [s1, s2]) its)) = 2 * length its"
    by (induction its) auto
  then have "length (copies tr) = 2 * length (steps tr)"
    unfolding tr steps_after_reset rest shape_copies shape_steps by simp
  with tr rest
  show "\<exists>its. tr = Call MdpReset # concat (map iteration_events its) @ [Call (MdpIsTerminal True)] \<and>
             length (copies tr) = 2 * length (steps tr)"
    by blast
next
  assume a: "live < length h \<and>
    (\<forall>s g a g'. get_next_action learner s g = (Inr a, g') \<longrightarrow> length g \<le> length g') \<and>
    trial_step (stored_mdp live rules) learner h = Some (Inr u, tb, h')"
  then have live: "live < length h"
    and grow: "\<And>s g a g'. get_next_action learner s g = (Inr a, g') \<Longrightarrow> length g \<le> length g'"
    and run: "trial_step (stored_mdp live rules) learner h = Some (Inr u, tb, h')"
    by blast+
  from run obtain s1 h1 a g s2 h3 r t h4 where
    c1: "mdp_copy (stored_mdp live rules) h = (Inr s1, h1)"
    and c2: "get_next_action learner s1 h1 = (Inr a, g)"
    and c3: "mdp_copy (stored_mdp live rules) g = (Inr s2, h3)"
    and c4: "step (stored_mdp live rules) a h3 = (Inr (r, t), h4)"
    and c5: "update learner s2 r a t h4 = (Inr (), h')"
    and tb: "tb = [Call (MdpCopy s1), Call (GetNextAction s1 a), Call (MdpCopy s2),
           Call (Step a r t), Call (Update s2 r a t)]"
    by (rule trial_step_chain)
  from c1 have s1: "s1 = length h" and h1: "h1 = h @ [h ! live]"
    by (simp_all add: stored_mdp_def)
  from c3 have s2: "s2 = length g" and h3: "h3 = g @ [g ! live]"
    by (simp_all add: stored_mdp_def)
  from grow [OF c2] have len: "length h < length g" unfolding h1 by simp
  with live have lg: "live < length g" by simp
  from c4 lg obtain v where adv: "advance rules a (g ! live) = Inr ((r, t), v)"
    and h4: "h4 = (g @ [g ! live])[live := v]"
    unfolding h3 by (auto simp: stored_mdp_def nth_append split: sum.splits)
  have cells: "((g @ [g ! live])[live := v]) ! length g = g ! live"
    "((g @ [g ! live])[live := v]) ! live = v"
    using lg by simp_all
  from c2 c5 tb adv cells live lg len
  show "\<exists>a g r t v.
         get_next_action learner (length h) (h @ [h ! live]) = (Inr a, g) \<and>
         advance rules a (g ! live) = Inr ((r, t), v) \<and>
         update learner (length g) r a t ((g @ [g ! live])[live := v]) = (Inr (), h') \<and>
         tb = [Call (MdpCopy (length h)), Call (GetNextAction (length h) a),
               Call (MdpCopy (length g)), Call (Step a r t), Call (Update (length g) r a t)] \<and>
         length h \<noteq> live \<and> length g \<noteq> live \<and> length h \<noteq> length g \<and>
         ((g @ [g ! live])[live := v]) ! length g = g ! live \<and>
         ((g @ [g ! live])[live := v]) ! live = v"
    unfolding s1 s2 h1 h4
    by (intro exI [of _ a] exI [of _ g] exI [of _ r] exI [of _ t] exI [of _ v]) simp
qed
text \<open>A trial of the stub MDP, and one pass of the loop on a store with one live counter.\<close>

theorem two_copies_per_iteration_witness:
  "\<exists>tr w' tb h' a g.
     run_trial 3 (stub_mdp 2 1) (stub_learner place ())
       \<lparr>place = 9, elapsed = 4, reward_sum = 2\<rparr> = Some (Inr 2, tr, w') \<and>
     length (copies tr) = 2 * length (steps tr) \<and>
     (0::nat) < length [0::nat] \<and>
     trial_step (stored_mdp 0 (counting_mdp_rules 2)) peeking_learner [0] =
       Some (Inr (), tb, h') \<and>
     tb = [Call (MdpCopy 1), Call (GetNextAction 1 0), Call (MdpCopy 2), Call (Step 0 1 False),
           Call (Update 2 1 0 False)] \<and>
     h' = [1, 0, 0] \<and>
     get_next_action peeking_learner (length [0::nat]) ([0] @ [[0] ! 0]) = (Inr a, g) \<and>
     length [0::nat] \<noteq> length g"
proof -
  let ?M = "stub_mdp 2 1 :: (stub_state, stub_state, nat, real) mdp"
  let ?L = "stub_learner place () :: (stub_state, stub_state, nat, real, unit) learner"
  let ?w0 = "\<lparr>place = 9, elapsed = 4, reward_sum = 2\<rparr>"
  let ?S = "stored_mdp 0 (counting_mdp_rules 2) :: (nat list, nat, nat, real) mdp"
  have "\<exists>tr w'. run_trial 3 ?M ?L ?w0 = Some (Inr 2, tr, w')"
    by (simp add: run_defs)
  then obtain tr w' where run: "run_trial 3 ?M ?L ?w0 = Some (Inr 2, tr, w')" by blast
  have "\<exists>tb h'. trial_step ?S peeking_learner [0] = Some (Inr (), tb, h') \<and>
     tb = [Call (MdpCopy 1), Call (GetNextAction 1 0), Call (MdpCopy 2), Call (Step 0 1 False),
           Call (Update 2 1 0 False)] \<and> h' = [1, 0, 0]"
    by (simp add: run_defs store_defs)
  then obtain tb h' where one: "trial_step ?S peeking_learner [0] = Some (Inr (), tb, h')"
    and tb: "tb = [Call (MdpCopy 1), Call (GetNextAction 1 0), Call (MdpCopy 2),
           Call (Step 0 1 False), Call (Update 2 1 0 False)]" and h': "h' = [1, 0, 0]"
    by blast
  have grow: "\<forall>s g a g'. get_next_action peeking_learner s g = (Inr a, g') \<longrightarrow>
      length g \<le> length g'"
    by (simp add: peeking_learner_def)
  have l: "(0::nat) < length [0::nat]" by simp
  note t = two_copies_per_iteration [where fuel = 3 and mdp = ?M and agent = ?L
      and w = ?w0 and n = 2 and tr = tr and w' = w' and live = 0 and h = "[0]"
      and learner = peeking_learner and rules = "counting_mdp_rules 2" and u = "()"
      and tb = tb and h' = h']
  from t run have c: "length (copies tr) = 2 * length (steps tr)" by blast
  from t l grow one obtain a g where
    "get_next_action peeking_learner (length [0::nat]) ([0] @ [[0] ! 0]) = (Inr a, g)"
    "length [0::nat] \<noteq> length g"
    by blast
  with c run l one tb h' show ?thesis by blast
qed

end
